theory Spec2Isabelle
  imports Complex_Main "HOL-Library.AList" "HOL-Library.DAList"
    "HOL-Library.Char_ord" "HOL-Library.List_Lexorder"
begin

section \<open>Data model (types/message.ts)\<close>

text \<open>
  A JavaScript number is a finite number, one of the two infinities, or NaN; the model
  takes the finite ones as reals (the rounding of doubles is outside the model, and
  minus zero is zero). The sizes that a message and the configuration give are such
  numbers, since the code tests them for truth. The coordinates and the padding of a
  position only enter arithmetic, which is stated over the reals. Identifiers are
  strings; the opaque payload \<open>data\<close> is a string. A field the interface marks optional
  is an \<open>option\<close>. The field \<open>id\<close> is named \<open>msg_id\<close>, and the fields of
  \<open>WindowPosition\<close> carry the prefix \<open>wp_\<close>, since \<open>id\<close>, \<open>x\<close> and \<open>y\<close> are taken in
  HOL.
\<close>

datatype js_number = Num real | PosInfinity | NegInfinity | NaN

text \<open>The numbers that count as false in a condition: zero and NaN.\<close>

definition falsy :: "js_number \<Rightarrow> bool" where
  "falsy v \<longleftrightarrow> v = Num 0 \<or> v = NaN"

datatype preset = RightBottom | RightTop | LeftBottom | LeftTop | Center

record WindowPosition =
  wp_x :: "real option"
  wp_y :: "real option"
  wp_position :: "preset option"
  wp_padding :: "real option"

record MessageType =
  msg_id :: string
  title :: string
  msg_type :: string
  data :: string
  min_width :: "js_number option"
  min_height :: "js_number option"
  windowPosition :: "WindowPosition option"

datatype queue_status = Pending | Showing | Shown | Hidden

record StoredMessage = MessageType +
  timestamp :: nat
  isRead :: bool
  isShown :: bool
  queueStatus :: queue_status
  queuePosition :: nat

record NoticeConfig =
  routePrefix :: string
  databaseName :: string
  defaultWidth :: js_number
  defaultHeight :: js_number

section \<open>The state of one context\<close>

text \<open>
  One record holds everything the modelled code reads and writes in one JavaScript
  context: the five state fields of the zustand store (stores/messageQueueStore.ts),
  the Dexie table \<open>messages\<close> keyed by id (utils/db.ts), the module-level map
  \<open>activeWindows\<close> of utils/noticeWindow.ts (its keys; the window handles are opaque),
  and the environment: \<open>faults\<close> lists, for the store calls still to come, whether
  each one rejects (an empty list: none does), \<open>rejected\<close> counts the store calls that
  have rejected so far, and \<open>now\<close> is the clock that \<open>saveMessage\<close> reads.
\<close>

datatype error = StoreError

record world =
  queue :: "MessageType list"
  currentMessage :: "MessageType option"
  isProcessing :: bool
  initialized :: bool
  activeWindowIds :: "string list"
  messages :: "(string, StoredMessage) alist"
  activeWindows :: "string list"
  faults :: "bool list"
  rejected :: nat
  now :: nat

type_synonym 'a task = "world \<Rightarrow> (error + 'a) \<times> world"

definition initial_state :: "(string, StoredMessage) alist \<Rightarrow> world" where
  "initial_state tbl =
     \<lparr>queue = [], currentMessage = None, isProcessing = False, initialized = False,
      activeWindowIds = [], messages = tbl, activeWindows = [], faults = [],
      rejected = 0, now = 0\<rparr>"

section \<open>The Durable Store (utils/db.ts)\<close>

text \<open>
  Every Dexie call first asks the environment whether it rejects. A rejected call
  changes no row. An \<open>await\<close> of a rejected promise rethrows, which the callers below
  model by returning \<open>Inl\<close> at once.
\<close>

definition db_call :: "world \<Rightarrow> bool \<times> world" where
  "db_call w =
     (case faults w of
        [] \<Rightarrow> (True, w)
      | f # fs \<Rightarrow> (\<not> f, w\<lparr>faults := fs, rejected := rejected w + (if f then 1 else 0)\<rparr>))"

text \<open>\<open>Table.put\<close>: insert or replace by primary key.\<close>

definition table_put :: "StoredMessage \<Rightarrow> unit task" where
  "table_put r w =
     (case db_call w of
        (False, w1) \<Rightarrow> (Inl StoreError, w1)
      | (True, w1) \<Rightarrow> (Inr (), w1\<lparr>messages := DAList.update (msg_id r) r (messages w1)\<rparr>))"

text \<open>\<open>Table.get\<close>.\<close>

definition table_get :: "string \<Rightarrow> (StoredMessage option) task" where
  "table_get k w =
     (case db_call w of
        (False, w1) \<Rightarrow> (Inl StoreError, w1)
      | (True, w1) \<Rightarrow> (Inr (DAList.lookup (messages w1) k), w1))"

text \<open>\<open>Table.update(key, changes)\<close>: changes the row when there is one, and resolves
  without effect when there is none.\<close>

definition table_update :: "string \<Rightarrow> (StoredMessage \<Rightarrow> StoredMessage) \<Rightarrow> unit task" where
  "table_update k f w =
     (case db_call w of
        (False, w1) \<Rightarrow> (Inl StoreError, w1)
      | (True, w1) \<Rightarrow> (Inr (), w1\<lparr>messages := DAList.map_entry k f (messages w1)\<rparr>))"

text \<open>\<open>saveMessage\<close> builds the row \<open>storedMessage\<close> from the message and the time
  of the call (the clock advances, so that two saves differ in their timestamps) and
  puts it.\<close>

definition storedMessage :: "MessageType \<Rightarrow> nat \<Rightarrow> StoredMessage" where
  "storedMessage message t =
     MessageType.extend message (StoredMessage.fields t False False Pending 0)"

definition saveMessage :: "MessageType \<Rightarrow> unit task" where
  "saveMessage message w =
     table_put (storedMessage message (now w)) (w\<lparr>now := now w + 1\<rparr>)"

definition hasMessage :: "string \<Rightarrow> bool task" where
  "hasMessage k w =
     (case table_get k w of
        (Inl e, w1) \<Rightarrow> (Inl e, w1)
      | (Inr message, w1) \<Rightarrow> (Inr (message \<noteq> None), w1))"

text \<open>\<open>where('queueStatus').equals('pending').sortBy('queuePosition')\<close>: the rows
  with status pending, taken in primary-key order, then sorted by position with a
  stable sort.\<close>

definition pending_rows :: "(string, StoredMessage) alist \<Rightarrow> StoredMessage list" where
  "pending_rows tbl =
     sort_key queuePosition
       (filter (\<lambda>r. queueStatus r = Pending) (map snd (sort_key fst (DAList.impl_of tbl))))"

definition getPendingMessages :: "(StoredMessage list) task" where
  "getPendingMessages w =
     (case db_call w of
        (False, w1) \<Rightarrow> (Inl StoreError, w1)
      | (True, w1) \<Rightarrow> (Inr (pending_rows (messages w1)), w1))"

definition updateQueueStatus :: "string \<Rightarrow> queue_status \<Rightarrow> unit task" where
  "updateQueueStatus k status = table_update k (\<lambda>r. r\<lparr>queueStatus := status\<rparr>)"

definition markAsShown :: "string \<Rightarrow> unit task" where
  "markAsShown k = table_update k (\<lambda>r. r\<lparr>queueStatus := Shown, isShown := True\<rparr>)"

definition markAsHidden :: "string \<Rightarrow> unit task" where
  "markAsHidden k = table_update k (\<lambda>r. r\<lparr>queueStatus := Hidden\<rparr>)"

definition getMessage :: "string \<Rightarrow> (StoredMessage option) task" where
  "getMessage k = table_get k"

text \<open>\<open>where('queueStatus').anyOf(['pending', 'showing']).delete()\<close>.\<close>

definition clearPendingMessages :: "unit task" where
  "clearPendingMessages w =
     (case db_call w of
        (False, w1) \<Rightarrow> (Inl StoreError, w1)
      | (True, w1) \<Rightarrow>
          (Inr (), w1\<lparr>messages :=
             DAList.filter (\<lambda>(k, r). queueStatus r \<noteq> Pending \<and> queueStatus r \<noteq> Showing)
               (messages w1)\<rparr>))"

text \<open>\<open>updateQueuePositions\<close> starts one update per entry and awaits them with
  \<open>Promise.all\<close>: every update is issued, also after one has rejected, and the
  result rejects when any of them did.\<close>

fun updateQueuePositions :: "(string \<times> nat) list \<Rightarrow> unit task" where
  "updateQueuePositions [] w = (Inr (), w)"
| "updateQueuePositions ((k, p) # ps) w =
     (case table_update k (\<lambda>r. r\<lparr>queuePosition := p\<rparr>) w of
        (r1, w1) \<Rightarrow>
          (case updateQueuePositions ps w1 of
             (r2, w2) \<Rightarrow> ((case r1 of Inl e \<Rightarrow> Inl e | Inr u \<Rightarrow> r2), w2)))"

section \<open>The queue store (stores/messageQueueStore.ts)\<close>

text \<open>
  An asynchronous action is modelled as run to completion: the model does not
  interleave two actions of one context. An action started without \<open>await\<close>
  (\<open>showNext\<close> inside \<open>clearCurrent\<close>) is run at the place where it is started and
  its result is dropped, as the caller drops its promise.
\<close>

definition positions_of :: "MessageType list \<Rightarrow> (string \<times> nat) list" where
  "positions_of q = map (\<lambda>(index, msg). (msg_id msg, index)) (enumerate 0 q)"

definition persistQueue :: "unit task" where
  "persistQueue w = updateQueuePositions (positions_of (queue w)) w"

definition dequeue :: "world \<Rightarrow> MessageType option \<times> world" where
  "dequeue w =
     (case queue w of
        [] \<Rightarrow> (None, w)
      | nextMessage # remainingQueue \<Rightarrow> (Some nextMessage, w\<lparr>queue := remainingQueue\<rparr>))"

definition showNext :: "unit task" where
  "showNext w =
     (if isProcessing w then (Inr (), w)
      else
        (case dequeue w of
           (None, w1) \<Rightarrow> (Inr (), w1\<lparr>isProcessing := False, currentMessage := None\<rparr>)
         | (Some nextMessage, w1) \<Rightarrow>
             (case updateQueueStatus (msg_id nextMessage) Showing
                     (w1\<lparr>currentMessage := Some nextMessage, isProcessing := True\<rparr>) of
                (Inl e, w2) \<Rightarrow> (Inl e, w2)
              | (Inr u, w2) \<Rightarrow> persistQueue w2)))"

text \<open>In \<open>enqueue\<close> the constant \<open>state\<close> is the snapshot taken on entry: the
  duplicate check, the new queue and the idle check all read it.\<close>

definition enqueue :: "MessageType \<Rightarrow> unit task" where
  "enqueue message w =
     (case hasMessage (msg_id message) w of
        (Inl e, w1) \<Rightarrow> (Inl e, w1)
      | (Inr exists, w1) \<Rightarrow>
          (case (if \<not> exists then saveMessage message w1 else (Inr (), w1)) of
             (Inl e, w2) \<Rightarrow> (Inl e, w2)
           | (Inr u, w2) \<Rightarrow>
               (case (if \<not> (\<exists>m \<in> set (queue w). msg_id m = msg_id message)
                      then persistQueue (w2\<lparr>queue := queue w @ [message]\<rparr>)
                      else (Inr (), w2)) of
                  (Inl e, w3) \<Rightarrow> (Inl e, w3)
                | (Inr u, w3) \<Rightarrow>
                    (if \<not> isProcessing w \<and> currentMessage w = None then showNext w3
                     else (Inr (), w3)))))"

text \<open>\<open>clearCurrent\<close> is synchronous and returns nothing: it starts \<open>showNext\<close>
  without awaiting it, so its own result is always a normal return.\<close>

definition clearCurrent :: "unit task" where
  "clearCurrent w =
     (let w1 = w\<lparr>currentMessage := None, isProcessing := False\<rparr>
      in if length (queue w1) > 0 then (Inr (), snd (showNext w1)) else (Inr (), w1))"

definition setCurrentMessage :: "MessageType option \<Rightarrow> world \<Rightarrow> world" where
  "setCurrentMessage message w = w\<lparr>currentMessage := message\<rparr>"

definition setIsProcessing :: "bool \<Rightarrow> world \<Rightarrow> world" where
  "setIsProcessing processing w = w\<lparr>isProcessing := processing\<rparr>"

definition setQueue :: "MessageType list \<Rightarrow> world \<Rightarrow> world" where
  "setQueue q w = w\<lparr>queue := q\<rparr>"

definition initializeFromDatabase :: "unit task" where
  "initializeFromDatabase w =
     (if initialized w then (Inr (), w)
      else
        (case getPendingMessages (w\<lparr>initialized := True\<rparr>) of
           (Inl e, w1) \<Rightarrow> (Inl e, w1)
         | (Inr pendingMessages, w1) \<Rightarrow>
             (if length pendingMessages > 0
              then showNext (w1\<lparr>queue := map MessageType.truncate pendingMessages\<rparr>)
              else (Inr (), w1))))"

definition clearOnLogout :: "unit task" where
  "clearOnLogout w =
     clearPendingMessages
       (w\<lparr>queue := [], currentMessage := None, isProcessing := False,
          activeWindowIds := [], initialized := False\<rparr>)"

definition addActiveWindow :: "string \<Rightarrow> world \<Rightarrow> world" where
  "addActiveWindow k w =
     (if k \<notin> set (activeWindowIds w) then w\<lparr>activeWindowIds := activeWindowIds w @ [k]\<rparr>
      else w)"

definition removeActiveWindow :: "string \<Rightarrow> world \<Rightarrow> world" where
  "removeActiveWindow k w =
     w\<lparr>activeWindowIds := filter (\<lambda>wid. wid \<noteq> k) (activeWindowIds w)\<rparr>"

definition isWindowActive :: "string \<Rightarrow> world \<Rightarrow> bool" where
  "isWindowActive k w = (k \<in> set (activeWindowIds w))"

section \<open>The notice windows (utils/noticeWindow.ts)\<close>

text \<open>
  \<open>primaryMonitor()\<close> belongs to the window toolkit: it rejects, or resolves to null,
  or resolves to a monitor with its size (width, height).
\<close>

datatype monitor_result = MonitorFails | NoMonitor | Monitor real real

definition calculateWindowPosition ::
  "monitor_result \<Rightarrow> real \<Rightarrow> real \<Rightarrow> WindowPosition option \<Rightarrow> real \<times> real" where
  "calculateWindowPosition monitor width height positionConfig =
     (let padding = (case Option.bind positionConfig wp_padding of None \<Rightarrow> 20 | Some p \<Rightarrow> p)
      in case (Option.bind positionConfig wp_x, Option.bind positionConfig wp_y) of
           (Some x, Some y) \<Rightarrow> (x, y)
         | _ \<Rightarrow>
            (let (screenWidth, screenHeight) =
                   (case monitor of
                      Monitor sw sh \<Rightarrow> (sw, sh)
                    | NoMonitor \<Rightarrow> (1920, 1080)
                    | MonitorFails \<Rightarrow> (1920, 1080));
                 position =
                   (case Option.bind positionConfig wp_position of
                      None \<Rightarrow> RightBottom
                    | Some p \<Rightarrow> p)
             in case position of
                  RightBottom \<Rightarrow> (screenWidth - width - padding, screenHeight - height - padding)
                | RightTop \<Rightarrow> (screenWidth - width - padding, padding)
                | LeftBottom \<Rightarrow> (padding, screenHeight - height - padding)
                | LeftTop \<Rightarrow> (padding, padding)
                | Center \<Rightarrow> ((screenWidth - width) / 2, (screenHeight - height) / 2)))"

text \<open>The JavaScript \<open>a || b\<close> on an optional number: \<open>b\<close> when \<open>a\<close> is undefined,
  zero or NaN, and \<open>a\<close> otherwise.\<close>

definition or_default :: "js_number option \<Rightarrow> js_number \<Rightarrow> js_number" where
  "or_default a b = (case a of None \<Rightarrow> b | Some v \<Rightarrow> if falsy v then b else v)"

text \<open>The window dimensions that \<open>createNoticeWindow\<close> determines.\<close>

definition window_size :: "NoticeConfig \<Rightarrow> MessageType \<Rightarrow> js_number \<times> js_number" where
  "window_size config message =
     (or_default (min_width message) (defaultWidth config),
      or_default (min_height message) (defaultHeight config))"

text \<open>The default configuration of config/noticeConfig.ts.\<close>

definition defaultConfig :: NoticeConfig where
  "defaultConfig =
     \<lparr>routePrefix = ''/notice'', databaseName = ''tauri-notice-db'',
      defaultWidth = Num 400, defaultHeight = Num 300\<rparr>"

text \<open>
  The handler that \<open>createNoticeWindow\<close> registers for \<open>tauri://destroyed\<close>. It is
  asynchronous and nobody awaits it: its first part runs up to the \<open>await\<close> of
  \<open>markAsShown\<close> (the store call is issued there), its second part is the
  \<open>clearCurrent\<close> after that \<open>await\<close>, which is not reached when the call rejected. The
  first part returns, besides the state, whether the second part is to run.
\<close>

definition destroyed_begin :: "string \<Rightarrow> world \<Rightarrow> bool \<times> world" where
  "destroyed_begin normalizedId w =
     (case markAsShown normalizedId
             (removeActiveWindow normalizedId
                (w\<lparr>activeWindows := removeAll normalizedId (activeWindows w)\<rparr>)) of
        (Inl e, w1) \<Rightarrow> (False, w1)
      | (Inr u, w1) \<Rightarrow> (True, w1))"

definition destroyed_end :: "bool \<Rightarrow> world \<Rightarrow> world" where
  "destroyed_end continue w = (if continue then snd (clearCurrent w) else w)"

text \<open>
  \<open>createNoticeWindow\<close>: the constructor of the toolkit's window either succeeds or
  throws. The size and position passed to it do not enter the state.
\<close>

datatype window_outcome = WindowCreated | WindowFails

definition createNoticeWindow :: "window_outcome \<Rightarrow> MessageType \<Rightarrow> world \<Rightarrow> world" where
  "createNoticeWindow outcome message w =
     (let normalizedId = msg_id message
      in if isWindowActive normalizedId w then w
         else
           (case outcome of
              WindowCreated \<Rightarrow>
                addActiveWindow normalizedId
                  (w\<lparr>activeWindows :=
                       (if normalizedId \<in> set (activeWindows w) then activeWindows w
                        else activeWindows w @ [normalizedId])\<rparr>)
            | WindowFails \<Rightarrow> snd (clearCurrent (removeActiveWindow normalizedId w))))"

text \<open>
  \<open>closeNoticeWindow\<close>: \<open>closes\<close> says whether \<open>window.close()\<close> resolves. The result
  says whether a window was closed, that is, whether its \<open>tauri://destroyed\<close> handler
  is due.
\<close>

definition closeNoticeWindow :: "bool \<Rightarrow> string \<Rightarrow> world \<Rightarrow> bool \<times> world" where
  "closeNoticeWindow closes messageId w =
     (if messageId \<in> set (activeWindows w)
      then (if closes
            then (True, w\<lparr>activeWindows := removeAll messageId (activeWindows w)\<rparr>)
            else (False, w))
      else (False, w))"

section \<open>Hiding a notice (hooks/useHideNotice.ts)\<close>

text \<open>
  \<open>hideNotice\<close> reads \<open>store.currentMessage\<close> from the snapshot of the state that the
  hook holds, here the state at the call. When the window was closed, its destroyed
  handler runs as well, and the source does not fix when: the schedule says whether
  both parts of the handler run before the rest of \<open>hideNotice\<close>, or the rest of
  \<open>hideNotice\<close> runs between the two parts, or after both.
\<close>

datatype schedule = HandlerFirst | HandlerAround | HandlerLast

definition hideNotice :: "bool \<Rightarrow> schedule \<Rightarrow> string \<Rightarrow> unit task" where
  "hideNotice closes sched messageId w =
     (case markAsHidden messageId w of
        (Inl e, w1) \<Rightarrow> (Inl e, w1)
      | (Inr u, w1) \<Rightarrow>
          (case closeNoticeWindow closes messageId w1 of
             (destroyed, w2) \<Rightarrow>
               (let rest = (\<lambda>v. if map_option msg_id (currentMessage w) = Some messageId
                                then snd (clearCurrent v) else v);
                    begin = (\<lambda>v. if destroyed then destroyed_begin messageId v else (False, v))
                in (Inr (),
                    (case sched of
                       HandlerFirst \<Rightarrow>
                         (case begin w2 of (c, w3) \<Rightarrow> rest (destroyed_end c w3))
                     | HandlerAround \<Rightarrow>
                         (case begin w2 of (c, w3) \<Rightarrow> destroyed_end c (rest w3))
                     | HandlerLast \<Rightarrow>
                         (case begin (rest w2) of (c, w3) \<Rightarrow> destroyed_end c w3))))))"

section \<open>Reachable states\<close>

text \<open>
  The states that sequences of the public queue operations reach from a fresh state over
  any stored table, the environment choosing at any moment which of the coming store
  calls reject. \<open>reachable\<close> has the two field setters, \<open>reachable_without_setters\<close>
  leaves them out.
\<close>

inductive reachable :: "world \<Rightarrow> bool" where
  reach_init: "reachable (initial_state tbl)"
| reach_env: "reachable w \<Longrightarrow> reachable (w\<lparr>faults := fs\<rparr>)"
| reach_enqueue: "reachable w \<Longrightarrow> reachable (snd (enqueue message w))"
| reach_showNext: "reachable w \<Longrightarrow> reachable (snd (showNext w))"
| reach_clearCurrent: "reachable w \<Longrightarrow> reachable (snd (clearCurrent w))"
| reach_initialize: "reachable w \<Longrightarrow> reachable (snd (initializeFromDatabase w))"
| reach_clearOnLogout: "reachable w \<Longrightarrow> reachable (snd (clearOnLogout w))"
| reach_setCurrentMessage: "reachable w \<Longrightarrow> reachable (setCurrentMessage message' w)"
| reach_setIsProcessing: "reachable w \<Longrightarrow> reachable (setIsProcessing processing w)"

inductive reachable_without_setters :: "world \<Rightarrow> bool" where
  core_init: "reachable_without_setters (initial_state tbl)"
| core_env: "reachable_without_setters w \<Longrightarrow> reachable_without_setters (w\<lparr>faults := fs\<rparr>)"
| core_enqueue: "reachable_without_setters w \<Longrightarrow> reachable_without_setters (snd (enqueue message w))"
| core_showNext: "reachable_without_setters w \<Longrightarrow> reachable_without_setters (snd (showNext w))"
| core_clearCurrent: "reachable_without_setters w \<Longrightarrow> reachable_without_setters (snd (clearCurrent w))"
| core_initialize: "reachable_without_setters w \<Longrightarrow> reachable_without_setters (snd (initializeFromDatabase w))"
| core_clearOnLogout: "reachable_without_setters w \<Longrightarrow> reachable_without_setters (snd (clearOnLogout w))"

section \<open>Notions used in the statements\<close>

text \<open>How many entries of a queue carry an id, and how many rows of the table are
  stored under a key.\<close>

definition occurrences :: "string \<Rightarrow> MessageType list \<Rightarrow> nat" where
  "occurrences k q = length (filter (\<lambda>x. msg_id x = k) q)"

definition stored_rows :: "string \<Rightarrow> world \<Rightarrow> nat" where
  "stored_rows k w = length (filter (\<lambda>(k', r). k' = k) (DAList.impl_of (messages w)))"

text \<open>The queue after the duplicate check of \<open>enqueue\<close>.\<close>

definition queue_with :: "MessageType \<Rightarrow> MessageType list \<Rightarrow> MessageType list" where
  "queue_with message q =
     (if \<exists>m \<in> set q. msg_id m = msg_id message then q else q @ [message])"

text \<open>A simulated restart: a fresh queue state over the same table (the clock goes on).\<close>

definition restart :: "world \<Rightarrow> world" where
  "restart w = (initial_state (messages w))\<lparr>now := now w\<rparr>"

text \<open>The restart scenario: two messages enqueued from the empty idle state over an empty
  store, then a restart and \<open>initializeFromDatabase\<close>.\<close>

definition after_two :: "MessageType \<Rightarrow> MessageType \<Rightarrow> world" where
  "after_two m1 m2 = snd (enqueue m2 (snd (enqueue m1 (initial_state DAList.empty))))"

definition restarted :: "MessageType \<Rightarrow> MessageType \<Rightarrow> world" where
  "restarted m1 m2 = snd (initializeFromDatabase (restart (after_two m1 m2)))"

section \<open>Auxiliary definitions for the proofs\<close>

text \<open>The rows after a batch of position updates that all resolve.\<close>

fun apply_positions ::
  "(string \<times> nat) list \<Rightarrow> (string, StoredMessage) alist \<Rightarrow> (string, StoredMessage) alist" where
  "apply_positions [] tbl = tbl"
| "apply_positions ((k, p) # ps) tbl =
     apply_positions ps (DAList.map_entry k (\<lambda>r. r\<lparr>queuePosition := p\<rparr>) tbl)"

text \<open>Two states agree on everything but the table and the environment.\<close>

definition same_memory :: "world \<Rightarrow> world \<Rightarrow> bool" where
  "same_memory w w' \<longleftrightarrow>
     queue w' = queue w \<and> currentMessage w' = currentMessage w \<and>
     isProcessing w' = isProcessing w \<and> initialized w' = initialized w \<and>
     activeWindowIds w' = activeWindowIds w \<and> activeWindows w' = activeWindows w"

text \<open>The busy flag is set exactly when there is a current message.\<close>

definition busy_iff_current :: "world \<Rightarrow> bool" where
  "busy_iff_current w \<longleftrightarrow> (isProcessing w \<longleftrightarrow> currentMessage w \<noteq> None)"

text \<open>The part of \<open>enqueue\<close> before the idle check, named for the proofs.\<close>

definition enqueue_store :: "MessageType \<Rightarrow> unit task" where
  "enqueue_store message w =
     (case hasMessage (msg_id message) w of
        (Inl e, w1) \<Rightarrow> (Inl e, w1)
      | (Inr exists, w1) \<Rightarrow>
          (case (if \<not> exists then saveMessage message w1 else (Inr (), w1)) of
             (Inl e, w2) \<Rightarrow> (Inl e, w2)
           | (Inr u, w2) \<Rightarrow>
               (if \<not> (\<exists>m \<in> set (queue w). msg_id m = msg_id message)
                then persistQueue (w2\<lparr>queue := queue w @ [message]\<rparr>)
                else (Inr (), w2))))"

text \<open>Two tables hold the same rows up to the positions.\<close>

definition positions_changed ::
  "(string, StoredMessage) alist \<Rightarrow> (string, StoredMessage) alist \<Rightarrow> bool" where
  "positions_changed t t' \<longleftrightarrow>
     (\<forall>k. case DAList.lookup t k of
             None \<Rightarrow> DAList.lookup t' k = None
           | Some r \<Rightarrow> (\<exists>p. DAList.lookup t' k = Some (r\<lparr>queuePosition := p\<rparr>)))"

section \<open>Example messages and states\<close>

text \<open>A message with a given id, and a stored row for it with a given status and
  position.\<close>

definition example_message :: "string \<Rightarrow> MessageType" where
  "example_message k =
     \<lparr>msg_id = k, title = ''Notice'', msg_type = ''announcement'', data = [],
      min_width = None, min_height = None, windowPosition = None\<rparr>"

definition example_row :: "string \<Rightarrow> queue_status \<Rightarrow> nat \<Rightarrow> StoredMessage" where
  "example_row k st p =
     \<lparr>msg_id = k, title = ''Notice'', msg_type = ''announcement'', data = [],
      min_width = None, min_height = None, windowPosition = None,
      timestamp = 0, isRead = False, isShown = False, queueStatus = st, queuePosition = p\<rparr>"

text \<open>Two messages queued, both stored as pending, nothing showing.\<close>

definition two_queued :: world where
  "two_queued =
     (initial_state
        (DAList.update ''b'' (example_row ''b'' Pending 5)
           (DAList.update ''a'' (example_row ''a'' Pending 3) DAList.empty)))
     \<lparr>queue := [example_message ''a'', example_message ''b'']\<rparr>"

text \<open>A table with one row of each status.\<close>

definition one_of_each :: "(string, StoredMessage) alist" where
  "one_of_each =
     DAList.update ''d'' (example_row ''d'' Hidden 0)
       (DAList.update ''c'' (example_row ''c'' Shown 0)
          (DAList.update ''b'' (example_row ''b'' Showing 0)
             (DAList.update ''a'' (example_row ''a'' Pending 0) DAList.empty)))"

text \<open>The next store call rejects.\<close>

definition failing_store :: "world \<Rightarrow> world" where
  "failing_store w = w\<lparr>faults := [True]\<rparr>"

text \<open>A busy state whose queue holds the same message twice, as \<open>setQueue\<close> can
  leave it.\<close>

definition duplicated_queue :: world where
  "duplicated_queue =
     (initial_state DAList.empty)
       \<lparr>queue := [example_message ''a'', example_message ''a''],
        currentMessage := Some (example_message ''c''), isProcessing := True\<rparr>"

text \<open>An idle state with an empty queue whose store holds a row, already shown, for the
  message about to be enqueued.\<close>

definition shown_before :: world where
  "shown_before =
     initial_state (DAList.update ''a'' (example_row ''a'' Shown 0) DAList.empty)"

text \<open>A message that asks for a width of zero, and one whose width is NaN.\<close>

definition zero_width_message :: MessageType where
  "zero_width_message = (example_message ''a'')\<lparr>min_width := Some (Num 0)\<rparr>"

definition nan_width_message :: MessageType where
  "nan_width_message = (example_message ''a'')\<lparr>min_width := Some NaN\<rparr>"

text \<open>A position directive with the preset left-top, a padding of 10 and no coordinates.\<close>

definition left_top_10 :: WindowPosition where
  "left_top_10 = \<lparr>wp_x = None, wp_y = None, wp_position = Some LeftTop, wp_padding = Some 10\<rparr>"

text \<open>
  Message a is showing in its open window, b and c wait: the state after the three
  messages were enqueued from the initial state and the window of a was created.
\<close>

definition showing_a :: world where
  "showing_a =
     createNoticeWindow WindowCreated (example_message ''a'')
       (snd (enqueue (example_message ''c'')
          (snd (enqueue (example_message ''b'')
             (snd (enqueue (example_message ''a'') (initial_state DAList.empty)))))))"

text \<open>The same with only b waiting.\<close>

definition showing_a_one_waiting :: world where
  "showing_a_one_waiting =
     createNoticeWindow WindowCreated (example_message ''a'')
       (snd (enqueue (example_message ''b'')
          (snd (enqueue (example_message ''a'') (initial_state DAList.empty)))))"

section \<open>Facts about the store calls\<close>

lemma db_call_healthy:
  "True \<notin> set (faults w) \<Longrightarrow> db_call w = (True, w\<lparr>faults := tl (faults w)\<rparr>)"
  by (cases "faults w") (auto simp: db_call_def)

lemma lookup_map_entry:
  "DAList.lookup (DAList.map_entry k f t) k' =
     (if k' = k then map_option f (DAList.lookup t k') else DAList.lookup t k')"
  by transfer (auto simp: map_of_map_entry split: option.splits)

lemma map_of_filter_distinct:
  "distinct (map fst t) \<Longrightarrow>
   map_of (filter P t) k =
     (case map_of t k of None \<Rightarrow> None | Some v \<Rightarrow> if P (k, v) then Some v else None)"
  by (induction t) (force split: option.splits)+

lemma lookup_filter:
  "DAList.lookup (DAList.filter P t) k =
     (case DAList.lookup t k of None \<Rightarrow> None | Some v \<Rightarrow> if P (k, v) then Some v else None)"
  by transfer (simp add: map_of_filter_distinct)

lemma table_update_healthy:
  "True \<notin> set (faults w) \<Longrightarrow>
   table_update k f w =
     (Inr (), w\<lparr>faults := tl (faults w), messages := DAList.map_entry k f (messages w)\<rparr>)"
  by (simp add: table_update_def db_call_healthy)

lemma healthy_tl: "True \<notin> set fs \<Longrightarrow> True \<notin> set (tl fs)"
  by (cases fs) auto

lemma updateQueuePositions_healthy:
  "True \<notin> set (faults w) \<Longrightarrow>
   updateQueuePositions ps w =
     (Inr (), w\<lparr>faults := drop (length ps) (faults w),
                 messages := apply_positions ps (messages w)\<rparr>)"
proof (induction ps arbitrary: w)
  case Nil
  then show ?case by simp
next
  case (Cons a ps)
  obtain k p where a: "a = (k, p)" by (cases a)
  let ?w1 = "w\<lparr>faults := tl (faults w),
               messages := DAList.map_entry k (\<lambda>r. r\<lparr>queuePosition := p\<rparr>) (messages w)\<rparr>"
  have h1: "True \<notin> set (faults ?w1)" using Cons.prems by (simp add: healthy_tl)
  show ?case
    using Cons.IH [OF h1] Cons.prems
    by (simp add: a table_update_healthy drop_Suc)
qed

lemma lookup_apply_positions:
  "DAList.lookup (apply_positions ps tbl) k =
     map_option (\<lambda>r. r\<lparr>queuePosition := (case map_of (rev ps) k of None \<Rightarrow> queuePosition r | Some p \<Rightarrow> p)\<rparr>)
       (DAList.lookup tbl k)"
proof (induction ps arbitrary: tbl)
  case Nil
  then show ?case by (simp add: option.map_ident)
next
  case (Cons a ps)
  obtain k0 p0 where a: "a = (k0, p0)" by (cases a)
  show ?case
    by (cases "DAList.lookup tbl k")
       (auto simp: a Cons.IH lookup_map_entry map_add_def split: option.splits)
qed

lemma map_of_rev_last:
  "i < length ps \<Longrightarrow> \<forall>j. i < j \<and> j < length ps \<longrightarrow> fst (ps ! j) \<noteq> fst (ps ! i) \<Longrightarrow>
   map_of (rev ps) (fst (ps ! i)) = Some (snd (ps ! i))"
proof (induction ps rule: rev_induct)
  case Nil
  then show ?case by simp
next
  case (snoc x ps)
  show ?case
  proof (cases "i = length ps")
    case True
    then show ?thesis by (cases x) simp
  next
    case False
    with snoc.prems(1) have i: "i < length ps" by simp
    have last: "fst x \<noteq> fst (ps ! i)"
      using snoc.prems(2) [rule_format, of "length ps"] i by (simp add: nth_append)
    have "\<forall>j. i < j \<and> j < length ps \<longrightarrow> fst (ps ! j) \<noteq> fst (ps ! i)"
    proof (intro allI impI)
      fix j assume j: "i < j \<and> j < length ps"
      then show "fst (ps ! j) \<noteq> fst (ps ! i)"
        using snoc.prems(2) [rule_format, of j] i by (simp add: nth_append)
    qed
    then have "map_of (rev ps) (fst (ps ! i)) = Some (snd (ps ! i))"
      using snoc.IH i by blast
    then show ?thesis using i last by (cases x) (auto simp: nth_append)
  qed
qed

lemma positions_of_nth:
  "i < length q \<Longrightarrow> positions_of q ! i = (msg_id (q ! i), i)"
  by (simp add: positions_of_def nth_enumerate_eq)

lemma length_positions_of: "length (positions_of q) = length q"
  by (simp add: positions_of_def)

lemma same_memory_refl [simp]: "same_memory w w"
  by (simp add: same_memory_def)

lemma same_memory_trans: "same_memory w w1 \<Longrightarrow> same_memory w1 w2 \<Longrightarrow> same_memory w w2"
  by (simp add: same_memory_def)

lemma db_call_memory [simp]: "same_memory w (snd (db_call w))"
  by (simp add: db_call_def same_memory_def split: list.splits)

lemma db_call_messages [simp]: "messages (snd (db_call w)) = messages w"
  by (simp add: db_call_def split: list.splits)

lemma table_update_alt:
  "table_update k f w =
     (if fst (db_call w)
      then (Inr (), (snd (db_call w))\<lparr>messages := DAList.map_entry k f (messages w)\<rparr>)
      else (Inl StoreError, snd (db_call w)))"
proof (cases "db_call w")
  case (Pair b w1)
  then have "messages w1 = messages w"
    using db_call_messages [of w] by simp
  with Pair show ?thesis
    by (cases b) (simp_all add: table_update_def)
qed

lemma table_update_memory [simp]: "same_memory w (snd (table_update k f w))"
  using db_call_memory [of w] by (simp add: table_update_alt same_memory_def)

lemma updateQueuePositions_snd:
  "snd (updateQueuePositions ((k, p) # ps) w) =
     snd (updateQueuePositions ps (snd (table_update k (\<lambda>r. r\<lparr>queuePosition := p\<rparr>) w)))"
  by (simp split: prod.splits)

lemma updateQueuePositions_memory [simp]: "same_memory w (snd (updateQueuePositions ps w))"
proof (induction ps arbitrary: w)
  case Nil
  then show ?case by simp
next
  case (Cons a ps)
  obtain k p where a: "a = (k, p)" by (cases a)
  show ?case
    unfolding a updateQueuePositions_snd
    by (rule same_memory_trans [OF table_update_memory Cons.IH])
qed

lemma db_call_cases:
  obtains (resolves) w1 where "db_call w = (True, w1)" and "same_memory w w1"
      and "messages w1 = messages w" and "rejected w1 = rejected w"
      and "faults w1 = tl (faults w)" and "now w1 = now w"
    | (rejects) w1 where "db_call w = (False, w1)" and "same_memory w w1"
      and "messages w1 = messages w" and "rejected w1 = Suc (rejected w)"
      and "faults w1 = tl (faults w)" and "now w1 = now w"
proof (cases "faults w")
  case Nil
  then have "db_call w = (True, w)" by (simp add: db_call_def)
  then show ?thesis using Nil by (intro resolves [of w]) simp_all
next
  case (Cons f fs)
  show ?thesis
  proof (cases f)
    case True
    let ?w1 = "w\<lparr>faults := fs, rejected := rejected w + 1\<rparr>"
    have "db_call w = (False, ?w1)" using Cons True by (simp add: db_call_def)
    then show ?thesis using Cons by (intro rejects [of ?w1]) (simp_all add: same_memory_def)
  next
    case False
    let ?w1 = "w\<lparr>faults := fs, rejected := rejected w + 0\<rparr>"
    have "db_call w = (True, ?w1)" using Cons False by (simp add: db_call_def)
    then show ?thesis using Cons by (intro resolves [of ?w1]) (simp_all add: same_memory_def)
  qed
qed

section \<open>showNext\<close>

lemma showNext_busy: "isProcessing w \<Longrightarrow> showNext w = (Inr (), w)"
  by (simp add: showNext_def)

lemma showNext_empty:
  "\<not> isProcessing w \<Longrightarrow> queue w = [] \<Longrightarrow>
   showNext w = (Inr (), w\<lparr>isProcessing := False, currentMessage := None\<rparr>)"
  by (simp add: showNext_def dequeue_def)

lemma showNext_snd:
  "\<not> isProcessing w \<Longrightarrow> queue w = m # rest \<Longrightarrow>
   snd (showNext w) =
     (case updateQueueStatus (msg_id m) Showing
             (w\<lparr>queue := rest, currentMessage := Some m, isProcessing := True\<rparr>) of
        (Inl e, w2) \<Rightarrow> w2
      | (Inr u, w2) \<Rightarrow> snd (persistQueue w2))"
  by (simp add: showNext_def dequeue_def split: prod.splits sum.splits)

lemma showNext_memory:
  assumes "\<not> isProcessing w" and "queue w = m # rest"
  shows "queue (snd (showNext w)) = rest"
    and "currentMessage (snd (showNext w)) = Some m"
    and "isProcessing (snd (showNext w))"
proof -
  let ?w1 = "w\<lparr>queue := rest, currentMessage := Some m, isProcessing := True\<rparr>"
  let ?t = "table_update (msg_id m) (\<lambda>r. r\<lparr>queueStatus := Showing\<rparr>) ?w1"
  have eq: "snd (showNext w) = (case fst ?t of Inl e \<Rightarrow> snd ?t
     | Inr u \<Rightarrow> snd (updateQueuePositions (positions_of (queue (snd ?t))) (snd ?t)))"
    using assms
    by (simp add: showNext_snd updateQueueStatus_def persistQueue_def split: prod.splits sum.splits)
  have t: "same_memory ?w1 (snd ?t)" by simp
  have u: "same_memory ?w1 (snd (updateQueuePositions ps (snd ?t)))" for ps
    by (rule same_memory_trans [OF t updateQueuePositions_memory])
  have "same_memory ?w1 (snd (showNext w))"
    using t u by (simp add: eq split: sum.splits)
  then show "queue (snd (showNext w)) = rest"
    and "currentMessage (snd (showNext w)) = Some m"
    and "isProcessing (snd (showNext w))"
    by (simp_all add: same_memory_def)
qed

lemma showNext_healthy:
  assumes "\<not> isProcessing w" and "queue w = m # rest" and "True \<notin> set (faults w)"
  shows "showNext w =
     (Inr (), w\<lparr>queue := rest, currentMessage := Some m, isProcessing := True,
                 faults := drop (Suc (length rest)) (faults w),
                 messages := apply_positions (positions_of rest)
                   (DAList.map_entry (msg_id m) (\<lambda>r. r\<lparr>queueStatus := Showing\<rparr>) (messages w))\<rparr>)"
  using assms
  by (simp add: showNext_def dequeue_def updateQueueStatus_def persistQueue_def
      table_update_healthy updateQueuePositions_healthy healthy_tl length_positions_of drop_Suc)

lemma showNext_status:
  assumes "\<not> isProcessing w" and "queue w = m # rest" and "True \<notin> set (faults w)"
    and "DAList.lookup (messages w) (msg_id m) = Some r"
  shows "\<exists>r'. DAList.lookup (messages (snd (showNext w))) (msg_id m) = Some r' \<and>
            queueStatus r' = Showing"
  using assms(4)
  by (simp add: showNext_healthy [OF assms(1-3)] lookup_apply_positions lookup_map_entry)

lemma showNext_positions:
  assumes "\<not> isProcessing w" and "queue w = m # rest" and "True \<notin> set (faults w)"
    and i: "i < length rest"
    and last: "\<forall>j. i < j \<and> j < length rest \<longrightarrow> msg_id (rest ! j) \<noteq> msg_id (rest ! i)"
    and row: "DAList.lookup (messages w) (msg_id (rest ! i)) = Some r"
  shows "\<exists>r'. DAList.lookup (messages (snd (showNext w))) (msg_id (rest ! i)) = Some r' \<and>
            queuePosition r' = i"
proof -
  let ?ps = "positions_of rest"
  have i': "i < length ?ps" using i by (simp add: length_positions_of)
  have "\<forall>j. i < j \<and> j < length ?ps \<longrightarrow> fst (?ps ! j) \<noteq> fst (?ps ! i)"
    using last i by (simp add: length_positions_of positions_of_nth)
  from map_of_rev_last [OF i' this]
  have pos: "map_of (rev ?ps) (msg_id (rest ! i)) = Some i"
    using i by (simp add: positions_of_nth)
  show ?thesis
    using row pos
    by (auto simp: showNext_healthy [OF assms(1-3)] lookup_apply_positions lookup_map_entry)
qed

text \<open>
  Claim C1. \<open>showNext\<close> changes nothing when \<open>isProcessing\<close> is set. Otherwise, on an
  empty queue it sets \<open>isProcessing\<close> to false and \<open>currentMessage\<close> to null and
  returns. Otherwise it removes the head of the queue, makes it the current message and
  sets \<open>isProcessing\<close>, whether or not the store calls resolve; and when they all
  resolve, it returns normally, the stored row of the head (when there is one) has status
  showing, and the stored row of every message left in the queue (when there is one) has
  as position the index of that message in the remaining queue. Should an id occur twice
  in the remaining queue, the update issued last wins, so the position is stated for the
  last occurrence.
\<close>

theorem showNext_spec:
  "(isProcessing w \<longrightarrow> showNext w = (Inr (), w)) \<and>
   (\<not> isProcessing w \<and> queue w = [] \<longrightarrow>
      showNext w = (Inr (), w\<lparr>isProcessing := False, currentMessage := None\<rparr>)) \<and>
   (\<not> isProcessing w \<and> queue w = m # rest \<longrightarrow>
      queue (snd (showNext w)) = rest \<and>
      currentMessage (snd (showNext w)) = Some m \<and>
      isProcessing (snd (showNext w)) \<and>
      (True \<notin> set (faults w) \<longrightarrow>
         fst (showNext w) = Inr () \<and>
         (\<forall>r. DAList.lookup (messages w) (msg_id m) = Some r \<longrightarrow>
            (\<exists>r'. DAList.lookup (messages (snd (showNext w))) (msg_id m) = Some r' \<and>
                  queueStatus r' = Showing)) \<and>
         (\<forall>i < length rest.
            (\<forall>j. i < j \<and> j < length rest \<longrightarrow> msg_id (rest ! j) \<noteq> msg_id (rest ! i)) \<longrightarrow>
            (\<forall>r. DAList.lookup (messages w) (msg_id (rest ! i)) = Some r \<longrightarrow>
               (\<exists>r'. DAList.lookup (messages (snd (showNext w))) (msg_id (rest ! i)) = Some r' \<and>
                     queuePosition r' = i)))))"
proof (intro conjI impI allI)
  assume "isProcessing w"
  then show "showNext w = (Inr (), w)" by (rule showNext_busy)
next
  assume "\<not> isProcessing w \<and> queue w = []"
  then show "showNext w = (Inr (), w\<lparr>isProcessing := False, currentMessage := None\<rparr>)"
    by (simp add: showNext_empty)
next
  assume a: "\<not> isProcessing w \<and> queue w = m # rest"
  then show "queue (snd (showNext w)) = rest"
    and "currentMessage (snd (showNext w)) = Some m"
    and "isProcessing (snd (showNext w))"
    by (simp_all add: showNext_memory)
  assume h: "True \<notin> set (faults w)"
  show "fst (showNext w) = Inr ()"
    using a h by (simp add: showNext_healthy)
  {
    fix r assume "DAList.lookup (messages w) (msg_id m) = Some r"
    then show "\<exists>r'. DAList.lookup (messages (snd (showNext w))) (msg_id m) = Some r' \<and>
                  queueStatus r' = Showing"
      using a h showNext_status by blast
  }
  {
    fix i r
    assume "i < length rest"
      and "\<forall>j. i < j \<and> j < length rest \<longrightarrow> msg_id (rest ! j) \<noteq> msg_id (rest ! i)"
      and "DAList.lookup (messages w) (msg_id (rest ! i)) = Some r"
    then show "\<exists>r'. DAList.lookup (messages (snd (showNext w))) (msg_id (rest ! i)) = Some r' \<and>
                     queuePosition r' = i"
      using a h showNext_positions by blast
  }
qed

theorem showNext_spec_witness:
  "showNext ((initial_state DAList.empty)\<lparr>isProcessing := True\<rparr>) =
     (Inr (), (initial_state DAList.empty)\<lparr>isProcessing := True\<rparr>) \<and>
   showNext (initial_state DAList.empty) = (Inr (), initial_state DAList.empty) \<and>
   queue (snd (showNext two_queued)) = [example_message ''b''] \<and>
   currentMessage (snd (showNext two_queued)) = Some (example_message ''a'') \<and>
   isProcessing (snd (showNext two_queued)) \<and>
   fst (showNext two_queued) = Inr () \<and>
   (\<exists>r'. DAList.lookup (messages (snd (showNext two_queued))) ''a'' = Some r' \<and>
         queueStatus r' = Showing) \<and>
   (\<exists>r'. DAList.lookup (messages (snd (showNext two_queued))) ''b'' = Some r' \<and>
         queuePosition r' = 0)"
  using showNext_spec [of "(initial_state DAList.empty)\<lparr>isProcessing := True\<rparr>"]
    showNext_spec [of "initial_state DAList.empty"]
    showNext_spec [of two_queued "example_message ''a''" "[example_message ''b'']"]
  by (auto simp: initial_state_def two_queued_def example_message_def)

section \<open>clearCurrent\<close>

lemma clearCurrent_empty:
  "queue w = [] \<Longrightarrow> clearCurrent w = (Inr (), w\<lparr>currentMessage := None, isProcessing := False\<rparr>)"
  by (simp add: clearCurrent_def)

lemma clearCurrent_nonempty:
  "queue w \<noteq> [] \<Longrightarrow>
   clearCurrent w = (Inr (), snd (showNext (w\<lparr>currentMessage := None, isProcessing := False\<rparr>)))"
  by (simp add: clearCurrent_def)

text \<open>
  Claim C3. \<open>clearCurrent\<close> always returns normally. With an empty queue its whole
  effect is to set \<open>currentMessage\<close> to null and \<open>isProcessing\<close> to false. With a
  non-empty queue the state it leaves is the one \<open>showNext\<close> leaves when run on the
  state so cleared; since the flag was cleared first, that \<open>showNext\<close> is never the
  busy no-op: the head of the queue has been popped and is the current message,
  whatever the two fields held before. (On an empty queue a call of \<open>showNext\<close>
  would leave the same state as no call, so that half of the claim is stated by the
  state alone.)
\<close>

theorem clearCurrent_spec:
  "(queue w = [] \<longrightarrow>
      clearCurrent w = (Inr (), w\<lparr>currentMessage := None, isProcessing := False\<rparr>)) \<and>
   (queue w \<noteq> [] \<longrightarrow>
      clearCurrent w =
        (Inr (), snd (showNext (w\<lparr>currentMessage := None, isProcessing := False\<rparr>))) \<and>
      queue (snd (clearCurrent w)) = tl (queue w) \<and>
      currentMessage (snd (clearCurrent w)) = Some (hd (queue w)) \<and>
      isProcessing (snd (clearCurrent w)))"
proof (intro conjI impI)
  assume "queue w = []"
  then show "clearCurrent w = (Inr (), w\<lparr>currentMessage := None, isProcessing := False\<rparr>)"
    by (rule clearCurrent_empty)
next
  let ?w1 = "w\<lparr>currentMessage := None, isProcessing := False\<rparr>"
  assume ne: "queue w \<noteq> []"
  then obtain m rest where q: "queue w = m # rest" by (cases "queue w") auto
  have idle: "\<not> isProcessing ?w1" and q1: "queue ?w1 = m # rest" using q by simp_all
  show "clearCurrent w = (Inr (), snd (showNext ?w1))"
    using ne by (rule clearCurrent_nonempty)
  then show "queue (snd (clearCurrent w)) = tl (queue w)"
    and "currentMessage (snd (clearCurrent w)) = Some (hd (queue w))"
    and "isProcessing (snd (clearCurrent w))"
    using showNext_memory [OF idle q1] q by simp_all
qed

theorem clearCurrent_spec_witness:
  "clearCurrent ((initial_state DAList.empty)
      \<lparr>currentMessage := Some (example_message ''a''), isProcessing := True\<rparr>)
     = (Inr (), initial_state DAList.empty) \<and>
   queue (snd (clearCurrent (two_queued
      \<lparr>currentMessage := Some (example_message ''c''), isProcessing := True\<rparr>)))
     = [example_message ''b''] \<and>
   currentMessage (snd (clearCurrent (two_queued
      \<lparr>currentMessage := Some (example_message ''c''), isProcessing := True\<rparr>)))
     = Some (example_message ''a'') \<and>
   isProcessing (snd (clearCurrent (two_queued
      \<lparr>currentMessage := Some (example_message ''c''), isProcessing := True\<rparr>)))"
proof -
  let ?w1 = "(initial_state DAList.empty)
      \<lparr>currentMessage := Some (example_message ''a''), isProcessing := True\<rparr>"
  let ?w2 = "two_queued
      \<lparr>currentMessage := Some (example_message ''c''), isProcessing := True\<rparr>"
  have e: "queue ?w1 = []" by (simp add: initial_state_def)
  have n: "queue ?w2 \<noteq> []" by (simp add: two_queued_def)
  have q: "queue ?w2 = [example_message ''a'', example_message ''b'']"
    by (simp add: two_queued_def)
  from clearCurrent_spec [of ?w1, THEN conjunct1, THEN mp, OF e]
  have a: "clearCurrent ?w1 = (Inr (), initial_state DAList.empty)"
    by (simp add: initial_state_def)
  from clearCurrent_spec [of ?w2, THEN conjunct2, THEN mp, OF n, THEN conjunct2]
  have b: "queue (snd (clearCurrent ?w2)) = [example_message ''b''] \<and>
      currentMessage (snd (clearCurrent ?w2)) = Some (example_message ''a'') \<and>
      isProcessing (snd (clearCurrent ?w2))"
    unfolding q by simp
  from a b show ?thesis by blast
qed

section \<open>The busy flag and the current message\<close>

lemma enqueue_alt:
  "enqueue message w =
     (case enqueue_store message w of
        (Inl e, w3) \<Rightarrow> (Inl e, w3)
      | (Inr u, w3) \<Rightarrow>
          (if \<not> isProcessing w \<and> currentMessage w = None then showNext w3 else (Inr (), w3)))"
proof (cases "hasMessage (msg_id message) w")
  case h: (Pair r1 w1)
  show ?thesis
  proof (cases r1)
    case (Inl e)
    with h show ?thesis by (simp add: enqueue_def enqueue_store_def)
  next
    case (Inr exists)
    show ?thesis
    proof (cases "if \<not> exists then saveMessage message w1 else (Inr (), w1)")
      case s: (Pair r2 w2)
      show ?thesis
      proof (cases r2)
        case (Inl e)
        with h Inr s show ?thesis by (simp add: enqueue_def enqueue_store_def)
      next
        case r2: (Inr u)
        show ?thesis
          using h Inr s r2
          by (cases "persistQueue (w2\<lparr>queue := queue w @ [message]\<rparr>)")
             (simp add: enqueue_def enqueue_store_def split: sum.splits)
      qed
    qed
  qed
qed

lemma showNext_inv: "busy_iff_current w \<Longrightarrow> busy_iff_current (snd (showNext w))"
proof (cases "isProcessing w")
  case True
  assume "busy_iff_current w"
  with True show ?thesis by (simp add: showNext_busy)
next
  case False
  show ?thesis
  proof (cases "queue w")
    case Nil
    with False show ?thesis by (simp add: showNext_empty busy_iff_current_def)
  next
    case (Cons m rest)
    with False show ?thesis
      using showNext_memory [OF False Cons] by (simp add: busy_iff_current_def)
  qed
qed

lemma table_get_memory [simp]: "same_memory w (snd (table_get k w))"
  by (rule db_call_cases [of w]) (simp_all add: table_get_def)

lemma hasMessage_memory [simp]: "same_memory w (snd (hasMessage k w))"
  by (rule db_call_cases [of w]) (simp_all add: hasMessage_def table_get_def)

lemma table_put_memory [simp]: "same_memory w (snd (table_put r w))"
  by (rule db_call_cases [of w]) (simp_all add: table_put_def same_memory_def)

lemma saveMessage_memory [simp]: "same_memory w (snd (saveMessage message w))"
proof -
  have "same_memory w (w\<lparr>now := now w + 1\<rparr>)" by (simp add: same_memory_def)
  then show ?thesis
    unfolding saveMessage_def by (rule same_memory_trans) simp
qed

lemma persistQueue_memory [simp]: "same_memory w (snd (persistQueue w))"
  by (simp add: persistQueue_def)

lemma enqueue_store_flags:
  "isProcessing (snd (enqueue_store message w)) = isProcessing w \<and>
   currentMessage (snd (enqueue_store message w)) = currentMessage w"
proof -
  let ?h = "hasMessage (msg_id message) w"
  have h: "same_memory w (snd ?h)" by simp
  let ?s = "saveMessage message (snd ?h)"
  have s: "same_memory w (snd ?s)"
    by (rule same_memory_trans [OF h]) simp
  let ?q = "queue w @ [message]"
  have p1: "same_memory ((snd ?h)\<lparr>queue := ?q\<rparr>) (snd (persistQueue ((snd ?h)\<lparr>queue := ?q\<rparr>)))"
    by simp
  have p2: "same_memory ((snd ?s)\<lparr>queue := ?q\<rparr>) (snd (persistQueue ((snd ?s)\<lparr>queue := ?q\<rparr>)))"
    by simp
  show ?thesis
    using h s p1 p2
    by (cases ?h; cases ?s)
       (auto simp: enqueue_store_def same_memory_def split: sum.splits if_splits)
qed

lemma enqueue_inv:
  assumes "busy_iff_current w"
  shows "busy_iff_current (snd (enqueue message w))"
proof -
  let ?w3 = "snd (enqueue_store message w)"
  have w3: "busy_iff_current ?w3"
    using assms enqueue_store_flags [of message w] by (simp add: busy_iff_current_def)
  have "snd (enqueue message w) = ?w3 \<or> snd (enqueue message w) = snd (showNext ?w3)"
    by (simp add: enqueue_alt split: prod.splits sum.splits)
  then show ?thesis using w3 showNext_inv [OF w3] by auto
qed

lemma clearCurrent_inv: "busy_iff_current (snd (clearCurrent w))"
proof -
  have "busy_iff_current (w\<lparr>currentMessage := None, isProcessing := False\<rparr>)"
    by (simp add: busy_iff_current_def)
  from this showNext_inv [OF this] show ?thesis
    by (simp add: clearCurrent_def Let_def)
qed

lemma getPendingMessages_memory [simp]: "same_memory w (snd (getPendingMessages w))"
  by (rule db_call_cases [of w]) (simp_all add: getPendingMessages_def)

lemma initializeFromDatabase_inv:
  assumes "busy_iff_current w"
  shows "busy_iff_current (snd (initializeFromDatabase w))"
proof (cases "initialized w")
  case True
  with assms show ?thesis by (simp add: initializeFromDatabase_def)
next
  case False
  let ?g = "getPendingMessages (w\<lparr>initialized := True\<rparr>)"
  have g: "same_memory (w\<lparr>initialized := True\<rparr>) (snd ?g)" by simp
  then have w1: "busy_iff_current (snd ?g)"
    using assms by (simp add: busy_iff_current_def same_memory_def)
  have w1q: "busy_iff_current ((snd ?g)\<lparr>queue := q\<rparr>)" for q
    using w1 by (simp add: busy_iff_current_def)
  show ?thesis
    using False w1 showNext_inv [OF w1q]
    by (cases ?g) (auto simp: initializeFromDatabase_def split: sum.splits)
qed

lemma clearPendingMessages_memory [simp]: "same_memory w (snd (clearPendingMessages w))"
  by (rule db_call_cases [of w]) (simp_all add: clearPendingMessages_def same_memory_def)

lemma clearOnLogout_memory:
  "same_memory
     (w\<lparr>queue := [], currentMessage := None, isProcessing := False,
        activeWindowIds := [], initialized := False\<rparr>)
     (snd (clearOnLogout w))"
  by (simp add: clearOnLogout_def)

lemma clearOnLogout_inv: "busy_iff_current (snd (clearOnLogout w))"
  using clearOnLogout_memory [of w] by (simp add: busy_iff_current_def same_memory_def)

text \<open>
  Claim C4, as amended. In every state reached by \<open>enqueue\<close>, \<open>showNext\<close>,
  \<open>clearCurrent\<close>, \<open>initializeFromDatabase\<close> and \<open>clearOnLogout\<close>, under any
  failures of the store, \<open>isProcessing\<close> holds exactly when \<open>currentMessage\<close> is not
  null. The two setters are left out: each writes one of the two fields alone.
\<close>

theorem busy_iff_current_without_setters:
  "reachable_without_setters w \<Longrightarrow> (isProcessing w \<longleftrightarrow> currentMessage w \<noteq> None)"
proof -
  assume "reachable_without_setters w"
  then have "busy_iff_current w"
  proof (induction rule: reachable_without_setters.induct)
    case (core_init tbl)
    show ?case by (simp add: busy_iff_current_def initial_state_def)
  next
    case (core_env w fs)
    then show ?case by (simp add: busy_iff_current_def)
  next
    case (core_enqueue w message)
    then show ?case by (simp add: enqueue_inv)
  next
    case (core_showNext w)
    then show ?case by (simp add: showNext_inv)
  next
    case (core_clearCurrent w)
    show ?case by (rule clearCurrent_inv)
  next
    case (core_initialize w)
    then show ?case by (simp add: initializeFromDatabase_inv)
  next
    case (core_clearOnLogout w)
    show ?case by (rule clearOnLogout_inv)
  qed
  then show ?thesis by (simp add: busy_iff_current_def)
qed

theorem busy_iff_current_witness:
  "reachable_without_setters (snd (enqueue (example_message ''a'') (initial_state DAList.empty))) \<and>
   (isProcessing (snd (enqueue (example_message ''a'') (initial_state DAList.empty))) \<longleftrightarrow>
    currentMessage (snd (enqueue (example_message ''a'') (initial_state DAList.empty))) \<noteq> None)"
proof -
  have "reachable_without_setters (initial_state DAList.empty)"
    by (rule core_init)
  then have r: "reachable_without_setters
      (snd (enqueue (example_message ''a'') (initial_state DAList.empty)))"
    by (rule core_enqueue)
  from r busy_iff_current_without_setters [OF r] show ?thesis by blast
qed

text \<open>
  Claim C4 as stated fails: \<open>setIsProcessing(true)\<close> on the initial state is a
  reachable state with the flag set and no current message.
\<close>

theorem busy_iff_current_counterexample:
  "reachable (setIsProcessing True (initial_state DAList.empty)) \<and>
   isProcessing (setIsProcessing True (initial_state DAList.empty)) \<and>
   currentMessage (setIsProcessing True (initial_state DAList.empty)) = None"
  by (simp add: reach_init reach_setIsProcessing)
     (simp add: setIsProcessing_def initial_state_def)

section \<open>Store failures and the result of an operation\<close>

lemma table_update_ok:
  "fst (table_update k f w) = Inr () \<Longrightarrow> rejected (snd (table_update k f w)) = rejected w"
  by (rule db_call_cases [of w]) (simp_all add: table_update_def)

lemma table_put_ok:
  "fst (table_put r w) = Inr () \<Longrightarrow> rejected (snd (table_put r w)) = rejected w"
  by (rule db_call_cases [of w]) (simp_all add: table_put_def)

lemma hasMessage_ok:
  "fst (hasMessage k w) = Inr b \<Longrightarrow> rejected (snd (hasMessage k w)) = rejected w"
  by (rule db_call_cases [of w]) (simp_all add: hasMessage_def table_get_def)

lemma saveMessage_ok:
  "fst (saveMessage message w) = Inr () \<Longrightarrow> rejected (snd (saveMessage message w)) = rejected w"
  unfolding saveMessage_def by (drule table_put_ok) simp

lemma updateQueuePositions_ok:
  "fst (updateQueuePositions ps w) = Inr () \<Longrightarrow>
   rejected (snd (updateQueuePositions ps w)) = rejected w"
proof (induction ps arbitrary: w)
  case Nil
  then show ?case by simp
next
  case (Cons a ps)
  obtain k p where a: "a = (k, p)" by (cases a)
  let ?t = "table_update k (\<lambda>r. r\<lparr>queuePosition := p\<rparr>) w"
  from Cons.prems have t: "fst ?t = Inr ()" and r: "fst (updateQueuePositions ps (snd ?t)) = Inr ()"
    by (auto simp: a split: prod.splits sum.splits)
  have "snd (updateQueuePositions (a # ps) w) = snd (updateQueuePositions ps (snd ?t))"
    unfolding a by (rule updateQueuePositions_snd)
  with table_update_ok [OF t] Cons.IH [OF r] show ?case
    by (simp only:)
qed

lemma persistQueue_ok:
  "fst (persistQueue w) = Inr () \<Longrightarrow> rejected (snd (persistQueue w)) = rejected w"
  unfolding persistQueue_def by (rule updateQueuePositions_ok)

lemma showNext_ok:
  assumes "fst (showNext w) = Inr ()"
  shows "rejected (snd (showNext w)) = rejected w"
proof (cases "isProcessing w")
  case True
  then show ?thesis by (simp add: showNext_busy)
next
  case False
  show ?thesis
  proof (cases "queue w")
    case Nil
    with False show ?thesis by (simp add: showNext_empty)
  next
    case (Cons m rest)
    let ?w1 = "w\<lparr>queue := rest, currentMessage := Some m, isProcessing := True\<rparr>"
    obtain r w2 where t: "updateQueueStatus (msg_id m) Showing ?w1 = (r, w2)"
      by (cases "updateQueueStatus (msg_id m) Showing ?w1")
    have eq: "showNext w = (case r of Inl e \<Rightarrow> (Inl e, w2) | Inr u \<Rightarrow> persistQueue w2)"
      using False Cons t by (simp add: showNext_def dequeue_def split: sum.splits)
    with assms have r: "r = Inr ()" by (cases r) simp_all
    then have eq': "showNext w = persistQueue w2" using eq by simp
    have "rejected w2 = rejected ?w1"
      using table_update_ok [of "msg_id m" "\<lambda>r. r\<lparr>queueStatus := Showing\<rparr>" ?w1] t r
      by (simp add: updateQueueStatus_def)
    moreover have "rejected (snd (persistQueue w2)) = rejected w2"
      using assms eq' by (simp add: persistQueue_ok)
    ultimately show ?thesis by (simp add: eq')
  qed
qed

lemma enqueue_store_ok:
  assumes "fst (enqueue_store message w) = Inr ()"
  shows "rejected (snd (enqueue_store message w)) = rejected w"
proof -
  let ?h = "hasMessage (msg_id message) w"
  obtain r1 w1 where h: "?h = (r1, w1)" by (cases ?h)
  with assms obtain exists where r1: "r1 = Inr exists"
    by (cases r1) (simp_all add: enqueue_store_def)
  have w1: "rejected w1 = rejected w"
    using hasMessage_ok [of "msg_id message" w exists] h r1 by simp
  let ?s = "if \<not> exists then saveMessage message w1 else (Inr (), w1)"
  obtain r2 w2 where s: "?s = (r2, w2)" by (cases ?s)
  with assms h r1 have r2: "r2 = Inr ()"
    by (cases r2) (simp_all add: enqueue_store_def)
  have w2: "rejected w2 = rejected w1"
    using saveMessage_ok [of message w1] s r2 by (auto split: if_splits)
  let ?p = "persistQueue (w2\<lparr>queue := queue w @ [message]\<rparr>)"
  have res: "enqueue_store message w =
      (if \<not> (\<exists>m \<in> set (queue w). msg_id m = msg_id message) then ?p else (Inr (), w2))"
    using h r1 s r2 by (simp add: enqueue_store_def)
  show ?thesis
  proof (cases "\<exists>m \<in> set (queue w). msg_id m = msg_id message")
    case True
    with res w1 w2 show ?thesis by simp
  next
    case False
    with res assms have "fst ?p = Inr ()" by simp
    from persistQueue_ok [OF this] res False w1 w2 show ?thesis by simp
  qed
qed

lemma enqueue_ok:
  assumes "fst (enqueue message w) = Inr ()"
  shows "rejected (snd (enqueue message w)) = rejected w"
proof -
  let ?e = "enqueue_store message w"
  from assms have e: "fst ?e = Inr ()"
    by (auto simp: enqueue_alt split: prod.splits sum.splits)
  note r = enqueue_store_ok [OF e]
  show ?thesis
  proof (cases "\<not> isProcessing w \<and> currentMessage w = None")
    case True
    with e have eq: "enqueue message w = showNext (snd ?e)"
      by (auto simp: enqueue_alt split: prod.splits sum.splits)
    with assms have "fst (showNext (snd ?e)) = Inr ()" by simp
    from showNext_ok [OF this] r eq show ?thesis by simp
  next
    case False
    with e have "snd (enqueue message w) = snd ?e"
      by (auto simp: enqueue_alt split: prod.splits sum.splits)
    with r show ?thesis by simp
  qed
qed

lemma not_ok_error: "fst x \<noteq> Inr () \<Longrightarrow> fst x = Inl StoreError"
  by (cases "fst x") (auto intro: error.exhaust)

text \<open>
  Claim C7, as amended. Whenever a store call rejects in the course of \<open>enqueue\<close>
  or of \<open>showNext\<close> (for \<open>enqueue\<close> also inside the \<open>showNext\<close> it awaits), the
  result of the operation is that error. \<open>clearCurrent\<close> is synchronous and returns
  nothing: its result is a normal return whatever happens in the \<open>showNext\<close> it
  starts.
\<close>

theorem store_failures_reported:
  "(rejected (snd (enqueue message w)) \<noteq> rejected w \<longrightarrow> fst (enqueue message w) = Inl StoreError) \<and>
   (rejected (snd (showNext w)) \<noteq> rejected w \<longrightarrow> fst (showNext w) = Inl StoreError) \<and>
   fst (clearCurrent w) = Inr ()"
proof (intro conjI impI)
  assume "rejected (snd (enqueue message w)) \<noteq> rejected w"
  then have "fst (enqueue message w) \<noteq> Inr ()"
    using enqueue_ok [of message w] by blast
  then show "fst (enqueue message w) = Inl StoreError" by (rule not_ok_error)
next
  assume "rejected (snd (showNext w)) \<noteq> rejected w"
  then have "fst (showNext w) \<noteq> Inr ()"
    using showNext_ok [of w] by blast
  then show "fst (showNext w) = Inl StoreError" by (rule not_ok_error)
next
  show "fst (clearCurrent w) = Inr ()"
    by (simp add: clearCurrent_def Let_def)
qed

lemma rejected_failing_enqueue:
  "rejected (snd (enqueue (example_message ''a'') (failing_store (initial_state DAList.empty)))) = 1"
  by (simp add: enqueue_def hasMessage_def table_get_def db_call_def failing_store_def
      initial_state_def)

lemma rejected_failing_showNext:
  "rejected (snd (showNext (failing_store two_queued))) = 1"
  by (simp add: showNext_def dequeue_def updateQueueStatus_def table_update_def db_call_def
      failing_store_def two_queued_def initial_state_def)

theorem store_failures_reported_witness:
  "fst (enqueue (example_message ''a'') (failing_store (initial_state DAList.empty))) = Inl StoreError \<and>
   fst (showNext (failing_store two_queued)) = Inl StoreError"
proof -
  have r0: "rejected (failing_store (initial_state DAList.empty)) = 0"
    "rejected (failing_store two_queued) = 0"
    by (simp_all add: failing_store_def two_queued_def initial_state_def)
  from store_failures_reported
    [of "example_message ''a''" "failing_store (initial_state DAList.empty)"]
  have a: "fst (enqueue (example_message ''a'') (failing_store (initial_state DAList.empty))) = Inl StoreError"
    by (simp add: rejected_failing_enqueue r0)
  from store_failures_reported [of "example_message ''a''" "failing_store two_queued"]
  have b: "fst (showNext (failing_store two_queued)) = Inl StoreError"
    by (simp add: rejected_failing_showNext r0)
  from a b show ?thesis by simp
qed

text \<open>
  Claim C7 as stated fails for \<open>clearCurrent\<close>: with two messages queued and a store
  whose next call rejects, the status write of the \<open>showNext\<close> it starts rejects, and
  \<open>clearCurrent\<close> does not report it.
\<close>

theorem clearCurrent_failure_counterexample:
  "rejected (snd (clearCurrent (failing_store two_queued))) \<noteq> rejected (failing_store two_queued) \<and>
   fst (clearCurrent (failing_store two_queued)) \<noteq> Inl StoreError"
  by (simp add: clearCurrent_def showNext_def dequeue_def updateQueueStatus_def table_update_def
      db_call_def failing_store_def two_queued_def initial_state_def)

section \<open>clearOnLogout\<close>

lemma clearOnLogout_healthy:
  "True \<notin> set (faults w) \<Longrightarrow>
   clearOnLogout w =
     (Inr (), w\<lparr>queue := [], currentMessage := None, isProcessing := False,
                 activeWindowIds := [], initialized := False,
                 faults := tl (faults w),
                 messages := DAList.filter
                   (\<lambda>(k, r). queueStatus r \<noteq> Pending \<and> queueStatus r \<noteq> Showing) (messages w)\<rparr>)"
  by (simp add: clearOnLogout_def clearPendingMessages_def db_call_healthy)

lemma pending_rows_filter:
  "pending_rows (DAList.filter (\<lambda>(k, r). queueStatus r \<noteq> Pending \<and> queueStatus r \<noteq> Showing) tbl) = []"
proof -
  have "filter (\<lambda>r. queueStatus r = Pending) (map snd (sort_key fst
          (filter (\<lambda>(k, r). queueStatus r \<noteq> Pending \<and> queueStatus r \<noteq> Showing) xs))) = []"
    for xs :: "(string \<times> StoredMessage) list"
    by (auto simp: filter_empty_conv)
  then show ?thesis
    by (simp add: pending_rows_def DAList.filter.rep_eq)
qed

text \<open>
  Claim C8. \<open>clearOnLogout\<close> leaves the queue empty, no current message,
  \<open>isProcessing\<close> false, no active window ids and \<open>initialized\<close> false; and when the
  store call resolves, it returns normally, the table has lost exactly the rows with
  status pending or showing, every other row being as before, and
  \<open>getPendingMessages\<close> then returns the empty list.
\<close>

theorem clearOnLogout_spec:
  "queue (snd (clearOnLogout w)) = [] \<and>
   currentMessage (snd (clearOnLogout w)) = None \<and>
   \<not> isProcessing (snd (clearOnLogout w)) \<and>
   activeWindowIds (snd (clearOnLogout w)) = [] \<and>
   \<not> initialized (snd (clearOnLogout w)) \<and>
   (True \<notin> set (faults w) \<longrightarrow>
      fst (clearOnLogout w) = Inr () \<and>
      (\<forall>k. DAList.lookup (messages (snd (clearOnLogout w))) k =
         (case DAList.lookup (messages w) k of
            None \<Rightarrow> None
          | Some r \<Rightarrow> if queueStatus r = Pending \<or> queueStatus r = Showing then None else Some r)) \<and>
      fst (getPendingMessages (snd (clearOnLogout w))) = Inr [])"
proof -
  have mem: "queue (snd (clearOnLogout w)) = [] \<and>
   currentMessage (snd (clearOnLogout w)) = None \<and>
   \<not> isProcessing (snd (clearOnLogout w)) \<and>
   activeWindowIds (snd (clearOnLogout w)) = [] \<and>
   \<not> initialized (snd (clearOnLogout w))"
    using clearOnLogout_memory [of w] by (simp add: same_memory_def)
  have "fst (clearOnLogout w) = Inr () \<and>
      (\<forall>k. DAList.lookup (messages (snd (clearOnLogout w))) k =
         (case DAList.lookup (messages w) k of
            None \<Rightarrow> None
          | Some r \<Rightarrow> if queueStatus r = Pending \<or> queueStatus r = Showing then None else Some r)) \<and>
      fst (getPendingMessages (snd (clearOnLogout w))) = Inr []"
    if h: "True \<notin> set (faults w)"
  proof -
    have h': "True \<notin> set (tl (faults w))" using h by (rule healthy_tl)
    show ?thesis
      by (simp add: clearOnLogout_healthy [OF h] lookup_filter getPendingMessages_def
          db_call_healthy h' pending_rows_filter split: option.splits)
  qed
  with mem show ?thesis by blast
qed

theorem clearOnLogout_spec_witness:
  "DAList.lookup (messages (snd (clearOnLogout (initial_state one_of_each)))) ''a'' = None \<and>
   DAList.lookup (messages (snd (clearOnLogout (initial_state one_of_each)))) ''b'' = None \<and>
   DAList.lookup (messages (snd (clearOnLogout (initial_state one_of_each)))) ''c'' =
     Some (example_row ''c'' Shown 0) \<and>
   DAList.lookup (messages (snd (clearOnLogout (initial_state one_of_each)))) ''d'' =
     Some (example_row ''d'' Hidden 0) \<and>
   fst (getPendingMessages (snd (clearOnLogout (initial_state one_of_each)))) = Inr []"
proof -
  have h: "True \<notin> set (faults (initial_state one_of_each))"
    by (simp add: initial_state_def)
  have m: "messages (initial_state one_of_each) = one_of_each"
    by (simp add: initial_state_def)
  note s = clearOnLogout_spec [of "initial_state one_of_each", THEN conjunct2, THEN conjunct2,
      THEN conjunct2, THEN conjunct2, THEN conjunct2, THEN mp, OF h]
  note l = s [THEN conjunct2, THEN conjunct1, rule_format, unfolded m]
  from l [of "''a''"] l [of "''b''"] l [of "''c''"] l [of "''d''"] s [THEN conjunct2, THEN conjunct2]
  show ?thesis
    by (simp add: m one_of_each_def example_row_def)
qed

section \<open>enqueue\<close>

lemma storedMessage_fields [simp]:
  "msg_id (storedMessage message t) = msg_id message"
  "timestamp (storedMessage message t) = t"
  "isRead (storedMessage message t) = False"
  "isShown (storedMessage message t) = False"
  "queueStatus (storedMessage message t) = Pending"
  "queuePosition (storedMessage message t) = 0"
  "MessageType.truncate (storedMessage message t) = message"
  by (simp_all add: storedMessage_def MessageType.defs StoredMessage.defs)

lemma hasMessage_healthy:
  "True \<notin> set (faults w) \<Longrightarrow>
   hasMessage k w = (Inr (DAList.lookup (messages w) k \<noteq> None), w\<lparr>faults := tl (faults w)\<rparr>)"
  by (simp add: hasMessage_def table_get_def db_call_healthy)

lemma saveMessage_healthy:
  "True \<notin> set (faults w) \<Longrightarrow>
   saveMessage message w =
     (Inr (), w\<lparr>now := now w + 1, faults := tl (faults w),
                 messages := DAList.update (msg_id message) (storedMessage message (now w))
                   (messages w)\<rparr>)"
  by (simp add: saveMessage_def table_put_def db_call_healthy)

lemma healthy_drop: "True \<notin> set fs \<Longrightarrow> True \<notin> set (drop n fs)"
  by (auto dest: in_set_dropD)

lemma persistQueue_healthy:
  "True \<notin> set (faults w) \<Longrightarrow>
   persistQueue w =
     (Inr (), w\<lparr>faults := drop (length (queue w)) (faults w),
                 messages := apply_positions (positions_of (queue w)) (messages w)\<rparr>)"
  by (simp add: persistQueue_def updateQueuePositions_healthy length_positions_of)

lemma lookup_apply_positions_None [simp]:
  "DAList.lookup (apply_positions ps tbl) k = None \<longleftrightarrow> DAList.lookup tbl k = None"
  by (simp add: lookup_apply_positions)

lemma lookup_map_entry_None [simp]:
  "DAList.lookup (DAList.map_entry k f tbl) k' = None \<longleftrightarrow> DAList.lookup tbl k' = None"
  by (simp add: lookup_map_entry)

lemma queue_with_nonempty [simp]: "queue_with message q \<noteq> []"
  by (auto simp: queue_with_def)

lemma enqueue_store_healthy:
  assumes h: "True \<notin> set (faults w)"
  shows "fst (enqueue_store message w) = Inr () \<and>
     True \<notin> set (faults (snd (enqueue_store message w))) \<and>
     queue (snd (enqueue_store message w)) = queue_with message (queue w) \<and>
     DAList.lookup (messages (snd (enqueue_store message w))) (msg_id message) \<noteq> None"
proof -
  have h1: "True \<notin> set (tl (faults w))" using h by (rule healthy_tl)
  have h2: "True \<notin> set (tl (tl (faults w)))" using h1 by (rule healthy_tl)
  have d1: "True \<notin> set (drop n (tl (faults w)))" for n using h1 by (rule healthy_drop)
  have d2: "True \<notin> set (drop n (tl (tl (faults w))))" for n using h2 by (rule healthy_drop)
  show ?thesis
  proof (cases "DAList.lookup (messages w) (msg_id message) = None")
    case True
    show ?thesis
      using True h h1 h2 d1 d2
      by (cases "\<exists>m \<in> set (queue w). msg_id m = msg_id message")
         (simp_all add: enqueue_store_def hasMessage_healthy saveMessage_healthy
            persistQueue_healthy queue_with_def)
  next
    case False
    show ?thesis
      using False h h1 h2 d1 d2
      by (cases "\<exists>m \<in> set (queue w). msg_id m = msg_id message")
         (simp_all add: enqueue_store_def hasMessage_healthy saveMessage_healthy
            persistQueue_healthy queue_with_def)
  qed
qed

lemma enqueue_healthy:
  assumes h: "True \<notin> set (faults w)"
  shows "fst (enqueue message w) = Inr () \<and>
     True \<notin> set (faults (snd (enqueue message w))) \<and>
     queue (snd (enqueue message w)) =
        (if \<not> isProcessing w \<and> currentMessage w = None
         then tl (queue_with message (queue w)) else queue_with message (queue w)) \<and>
     (isProcessing (snd (enqueue message w)) \<or> currentMessage (snd (enqueue message w)) \<noteq> None) \<and>
     currentMessage (snd (enqueue message w)) =
        (if \<not> isProcessing w \<and> currentMessage w = None
         then Some (hd (queue_with message (queue w))) else currentMessage w) \<and>
     DAList.lookup (messages (snd (enqueue message w))) (msg_id message) \<noteq> None"
proof -
  let ?e = "enqueue_store message w"
  let ?w3 = "snd ?e"
  note e = enqueue_store_healthy [OF h, of message]
  note f = enqueue_store_flags [of message w]
  obtain m rest where q: "queue_with message (queue w) = m # rest"
    by (cases "queue_with message (queue w)") simp_all
  have q3: "queue ?w3 = m # rest" using e q by simp
  have h3: "True \<notin> set (faults ?w3)" using e by simp
  show ?thesis
  proof (cases "\<not> isProcessing w \<and> currentMessage w = None")
    case True
    with e have eq: "enqueue message w = showNext ?w3"
      by (cases ?e) (simp add: enqueue_alt)
    have idle: "\<not> isProcessing ?w3" using True f by simp
    note s = showNext_healthy [OF idle q3 h3]
    have d: "True \<notin> set (drop n (faults ?w3))" for n using h3 by (rule healthy_drop)
    show ?thesis
      using True q e d by (simp add: eq s del: drop_Suc_Cons)
  next
    case False
    with e have eq: "enqueue message w = (Inr (), ?w3)"
      by (cases ?e) (auto simp: enqueue_alt)
    show ?thesis
      using False e f by (auto simp: eq)
  qed
qed

lemma occurrences_queue_with:
  "occurrences (msg_id message) q \<le> 1 \<Longrightarrow>
   occurrences (msg_id message) (queue_with message q) = 1"
proof -
  assume a: "occurrences (msg_id message) q \<le> 1"
  show ?thesis
  proof (cases "\<exists>m \<in> set q. msg_id m = msg_id message")
    case True
    then have "filter (\<lambda>x. msg_id x = msg_id message) q \<noteq> []"
      by (auto simp: filter_empty_conv)
    then have "occurrences (msg_id message) q \<noteq> 0" by (simp add: occurrences_def)
    with a True show ?thesis by (simp add: queue_with_def)
  next
    case False
    then have "filter (\<lambda>x. msg_id x = msg_id message) q = []"
      by (auto simp: filter_empty_conv)
    with False show ?thesis by (simp add: queue_with_def occurrences_def)
  qed
qed

lemma occurrences_tl: "occurrences k (tl q) \<le> occurrences k q"
  by (cases q) (simp_all add: occurrences_def)

lemma stored_rows_one:
  "DAList.lookup (messages w) k \<noteq> None \<Longrightarrow> stored_rows k w = 1"
proof -
  have "distinct (map fst xs) \<Longrightarrow> map_of xs k \<noteq> None \<Longrightarrow>
      length (filter (\<lambda>(k', r). k' = k) xs) = 1" for xs :: "(string \<times> StoredMessage) list"
  proof (induction xs)
    case Nil
    then show ?case by simp
  next
    case (Cons a xs)
    obtain k0 r0 where a: "a = (k0, r0)" by (cases a)
    show ?case
    proof (cases "k0 = k")
      case True
      with Cons.prems a have "k \<notin> fst ` set xs" by simp
      then have "filter (\<lambda>(k', r). k' = k) xs = []"
        by (force simp: filter_empty_conv)
      with True a show ?thesis by simp
    next
      case False
      with Cons a show ?thesis by simp
    qed
  qed
  from this [of "DAList.impl_of (messages w)"]
  show "DAList.lookup (messages w) k \<noteq> None \<Longrightarrow> stored_rows k w = 1"
    by (simp add: stored_rows_def DAList.lookup.rep_eq)
qed

text \<open>
  Claim C2, as amended. From every state whose queue holds at most one entry with the
  id of the message, and with the store calls resolving, two calls of \<open>enqueue\<close> with
  that message, the second started when the first has completed, both return normally
  and leave exactly one entry with that id in the queue and exactly one row under that
  key in the table.
\<close>

theorem enqueue_twice:
  assumes "True \<notin> set (faults w)"
    and "occurrences (msg_id message) (queue w) \<le> 1"
  shows "fst (enqueue message w) = Inr () \<and>
         fst (enqueue message (snd (enqueue message w))) = Inr () \<and>
         occurrences (msg_id message) (queue (snd (enqueue message (snd (enqueue message w))))) = 1 \<and>
         stored_rows (msg_id message) (snd (enqueue message (snd (enqueue message w)))) = 1"
proof -
  let ?k = "msg_id message"
  let ?w1 = "snd (enqueue message w)"
  let ?w2 = "snd (enqueue message ?w1)"
  note a = enqueue_healthy [OF assms(1), of message]
  from a have h1: "True \<notin> set (faults ?w1)" by simp
  note b = enqueue_healthy [OF h1, of message]
  have busy: "\<not> (\<not> isProcessing ?w1 \<and> currentMessage ?w1 = None)"
    using a by blast
  have "occurrences ?k (queue ?w1) \<le> occurrences ?k (queue_with message (queue w))"
    using a by (simp add: occurrences_tl)
  then have "occurrences ?k (queue ?w1) \<le> 1"
    using occurrences_queue_with [OF assms(2)] by simp
  then have "occurrences ?k (queue_with message (queue ?w1)) = 1"
    by (rule occurrences_queue_with)
  moreover have "queue ?w2 = queue_with message (queue ?w1)"
    using b busy by simp
  ultimately have q: "occurrences ?k (queue ?w2) = 1" by simp
  have "DAList.lookup (messages ?w2) ?k \<noteq> None" using b by simp
  then have r: "stored_rows ?k ?w2 = 1" by (rule stored_rows_one)
  from a b q r show ?thesis by simp
qed

theorem enqueue_twice_witness:
  "occurrences ''a'' (queue (snd (enqueue (example_message ''a'')
      (snd (enqueue (example_message ''a'') (initial_state DAList.empty)))))) = 1 \<and>
   stored_rows ''a'' (snd (enqueue (example_message ''a'')
      (snd (enqueue (example_message ''a'') (initial_state DAList.empty))))) = 1"
proof -
  have h: "True \<notin> set (faults (initial_state DAList.empty))"
    by (simp add: initial_state_def)
  have o: "occurrences (msg_id (example_message ''a'')) (queue (initial_state DAList.empty)) \<le> 1"
    by (simp add: initial_state_def occurrences_def)
  have k: "msg_id (example_message ''a'') = ''a''" by (simp add: example_message_def)
  from enqueue_twice [OF h o] show ?thesis unfolding k by simp
qed

text \<open>
  Claim C2 as stated, for every starting state, fails: \<open>enqueue\<close> adds no entry when
  the id is present, and it removes none either, so a queue that holds the message
  twice still holds it twice after the two calls.
\<close>

theorem enqueue_twice_counterexample:
  "occurrences ''a'' (queue (snd (enqueue (example_message ''a'')
      (snd (enqueue (example_message ''a'') duplicated_queue))))) = 2"
proof -
  let ?w1 = "snd (enqueue (example_message ''a'') duplicated_queue)"
  have h: "True \<notin> set (faults duplicated_queue)"
    by (simp add: duplicated_queue_def initial_state_def)
  note a = enqueue_healthy [OF h, of "example_message ''a''"]
  from a have h1: "True \<notin> set (faults ?w1)" by simp
  note b = enqueue_healthy [OF h1, of "example_message ''a''"]
  have q1: "queue ?w1 = [example_message ''a'', example_message ''a'']"
    using a by (simp add: duplicated_queue_def initial_state_def queue_with_def)
  have busy: "\<not> (\<not> isProcessing ?w1 \<and> currentMessage ?w1 = None)"
    using a by blast
  have "queue (snd (enqueue (example_message ''a'') ?w1)) =
      [example_message ''a'', example_message ''a'']"
    using b busy by (simp add: q1 queue_with_def)
  then show ?thesis
    by (simp add: occurrences_def example_message_def)
qed

section \<open>Restart\<close>

lemma after_first:
  "snd (enqueue m1 (initial_state DAList.empty)) =
     \<lparr>queue = [], currentMessage = Some m1, isProcessing = True, initialized = False,
      activeWindowIds = [],
      messages = DAList.map_entry (msg_id m1) (\<lambda>r. r\<lparr>queueStatus := Showing\<rparr>)
        (DAList.map_entry (msg_id m1) (\<lambda>r. r\<lparr>queuePosition := 0\<rparr>)
           (DAList.update (msg_id m1) (storedMessage m1 0) DAList.empty)),
      activeWindows = [], faults = [], rejected = 0, now = 1\<rparr>"
  by (simp add: enqueue_def hasMessage_def table_get_def db_call_def saveMessage_def
      table_put_def persistQueue_def positions_of_def showNext_def dequeue_def
      updateQueueStatus_def table_update_def initial_state_def)

lemma after_two_eq:
  assumes "msg_id m1 \<noteq> msg_id m2"
  shows "after_two m1 m2 =
     \<lparr>queue = [m2], currentMessage = Some m1, isProcessing = True, initialized = False,
      activeWindowIds = [],
      messages = DAList.map_entry (msg_id m2) (\<lambda>r. r\<lparr>queuePosition := 0\<rparr>)
        (DAList.update (msg_id m2) (storedMessage m2 1)
          (DAList.map_entry (msg_id m1) (\<lambda>r. r\<lparr>queueStatus := Showing\<rparr>)
            (DAList.map_entry (msg_id m1) (\<lambda>r. r\<lparr>queuePosition := 0\<rparr>)
              (DAList.update (msg_id m1) (storedMessage m1 0) DAList.empty)))),
      activeWindows = [], faults = [], rejected = 0, now = 2\<rparr>"
  using assms unfolding after_two_def after_first
  by (simp add: enqueue_def hasMessage_def table_get_def db_call_def saveMessage_def
      table_put_def persistQueue_def positions_of_def
      table_update_def lookup_map_entry)

lemma pending_after_two:
  assumes "msg_id m1 \<noteq> msg_id m2"
  shows "pending_rows (messages (after_two m1 m2)) = [storedMessage m2 1]"
proof -
  have s: "(storedMessage m2 1)\<lparr>queuePosition := 0\<rparr> = storedMessage m2 1"
    by (simp add: storedMessage_def MessageType.defs StoredMessage.defs)
  show ?thesis
    using assms
    by (simp add: after_two_eq pending_rows_def DAList.map_entry.rep_eq DAList.update.rep_eq
        DAList.empty.rep_eq s)
qed

lemma restarted_eq:
  assumes "msg_id m1 \<noteq> msg_id m2"
  shows "queue (restarted m1 m2) = []"
    and "currentMessage (restarted m1 m2) = Some m2"
    and "isProcessing (restarted m1 m2)"
    and "\<exists>r. DAList.lookup (messages (restarted m1 m2)) (msg_id m1) = Some r \<and>
             queueStatus r = Showing"
proof -
  let ?w = "restart (after_two m1 m2)"
  have p: "pending_rows (messages ?w) = [storedMessage m2 1]"
    using pending_after_two [OF assms] by (simp add: restart_def initial_state_def)
  have f: "faults ?w = []" "\<not> initialized ?w" "\<not> isProcessing ?w"
    by (simp_all add: restart_def initial_state_def)
  let ?w1 = "?w\<lparr>initialized := True, queue := [m2]\<rparr>"
  have eq: "initializeFromDatabase ?w = showNext ?w1"
    using f p by (simp add: initializeFromDatabase_def getPendingMessages_def db_call_def)
  have h: "True \<notin> set (faults ?w1)" "\<not> isProcessing ?w1" "queue ?w1 = m2 # []"
    using f by simp_all
  note s = showNext_healthy [OF h(2) h(3) h(1)]
  show "queue (restarted m1 m2) = []"
    and "currentMessage (restarted m1 m2) = Some m2"
    and "isProcessing (restarted m1 m2)"
    unfolding restarted_def eq s by simp_all
  have "messages ?w1 = messages (after_two m1 m2)"
    by (simp add: restart_def initial_state_def)
  then show "\<exists>r. DAList.lookup (messages (restarted m1 m2)) (msg_id m1) = Some r \<and>
             queueStatus r = Showing"
    unfolding restarted_def eq s using assms
    by (simp add: after_two_eq lookup_apply_positions lookup_map_entry positions_of_def)
qed

text \<open>
  Claim C5, as amended. Starting from an empty store and an empty idle queue, after
  \<open>enqueue(m1)\<close> and \<open>enqueue(m2)\<close> with different ids, the first message is current and
  its row has status showing, so the only pending row is that of the second message.
  After a restart, \<open>initializeFromDatabase\<close> loads that one row and shows it: the second
  message is current, the queue is empty, and the row of the first keeps status showing.
\<close>

theorem restart_restores_pending_only:
  assumes "msg_id m1 \<noteq> msg_id m2"
  shows "fst (getPendingMessages (restart (after_two m1 m2))) = Inr [storedMessage m2 1] \<and>
         queue (restarted m1 m2) = [] \<and>
         currentMessage (restarted m1 m2) = Some m2 \<and>
         isProcessing (restarted m1 m2) \<and>
         (\<exists>r. DAList.lookup (messages (restarted m1 m2)) (msg_id m1) = Some r \<and>
               queueStatus r = Showing)"
proof -
  have "fst (getPendingMessages (restart (after_two m1 m2))) =
      Inr (pending_rows (messages (after_two m1 m2)))"
    by (simp add: getPendingMessages_def db_call_def restart_def initial_state_def)
  with pending_after_two [OF assms] restarted_eq [OF assms] show ?thesis by simp
qed

theorem restart_restores_pending_only_witness:
  "msg_id (example_message ''a'') \<noteq> msg_id (example_message ''b'') \<and>
   queue (restarted (example_message ''a'') (example_message ''b'')) = [] \<and>
   currentMessage (restarted (example_message ''a'') (example_message ''b'')) =
     Some (example_message ''b'')"
proof -
  have d: "msg_id (example_message ''a'') \<noteq> msg_id (example_message ''b'')"
    by (simp add: example_message_def)
  from d restart_restores_pending_only [OF d] show ?thesis by simp
qed

text \<open>
  Claim C5 as stated fails: after the restart the current message is the second one,
  not the first, and the queue is empty, not the two messages in order.
\<close>

theorem restart_counterexample:
  "currentMessage (restarted (example_message ''a'') (example_message ''b'')) \<noteq>
     Some (example_message ''a'') \<and>
   queue (restarted (example_message ''a'') (example_message ''b'')) \<noteq>
     [example_message ''a'', example_message ''b'']"
proof -
  have d: "msg_id (example_message ''a'') \<noteq> msg_id (example_message ''b'')"
    by (simp add: example_message_def)
  from restarted_eq(1,2) [OF d] show ?thesis
    by (simp add: example_message_def)
qed

section \<open>What enqueue does to a row that exists\<close>

lemma position_self: "\<exists>p. (r :: StoredMessage) = r\<lparr>queuePosition := p\<rparr>"
  by (rule exI [of _ "queuePosition r"]) simp

lemma positions_changed_refl [simp]: "positions_changed t t"
  unfolding positions_changed_def by (auto split: option.splits simp: position_self)

lemma positions_changed_trans:
  assumes "positions_changed t t1" and "positions_changed t1 t2"
  shows "positions_changed t t2"
  unfolding positions_changed_def
proof
  fix k
  show "case DAList.lookup t k of None \<Rightarrow> DAList.lookup t2 k = None
        | Some r \<Rightarrow> \<exists>p. DAList.lookup t2 k = Some (r\<lparr>queuePosition := p\<rparr>)"
    using assms(1) [unfolded positions_changed_def, rule_format, of k]
      assms(2) [unfolded positions_changed_def, rule_format, of k]
    by (auto split: option.splits)
qed

lemma positions_changed_map_entry:
  "positions_changed t (DAList.map_entry k (\<lambda>r. r\<lparr>queuePosition := p\<rparr>) t)"
  unfolding positions_changed_def
  by (auto simp: lookup_map_entry position_self split: option.splits)

lemma table_update_position:
  "positions_changed (messages w)
     (messages (snd (table_update k (\<lambda>r. r\<lparr>queuePosition := p\<rparr>) w)))"
  by (rule db_call_cases [of w])
     (simp_all add: table_update_def positions_changed_map_entry)

lemma updateQueuePositions_position:
  "positions_changed (messages w) (messages (snd (updateQueuePositions ps w)))"
proof (induction ps arbitrary: w)
  case Nil
  then show ?case by simp
next
  case (Cons a ps)
  obtain k p where a: "a = (k, p)" by (cases a)
  show ?case
    unfolding a updateQueuePositions_snd
    by (rule positions_changed_trans [OF table_update_position Cons.IH])
qed

lemma persistQueue_position:
  "positions_changed (messages w) (messages (snd (persistQueue w)))"
  unfolding persistQueue_def by (rule updateQueuePositions_position)

lemma enqueue_store_existing:
  assumes "DAList.lookup (messages w) (msg_id message) \<noteq> None"
  shows "positions_changed (messages w) (messages (snd (enqueue_store message w)))"
    and "fst (enqueue_store message w) = Inr () \<longrightarrow>
         queue (snd (enqueue_store message w)) = queue_with message (queue w)"
proof -
  have p: "positions_changed (messages w)
      (messages (snd (persistQueue (w1\<lparr>queue := q\<rparr>))))"
    if "messages w1 = messages w" for w1 q
    using persistQueue_position [of "w1\<lparr>queue := q\<rparr>"] that by simp
  have m: "queue (snd (persistQueue (w1\<lparr>queue := q\<rparr>))) = q" for w1 q
    using persistQueue_memory [of "w1\<lparr>queue := q\<rparr>"] by (simp add: same_memory_def)
  show "positions_changed (messages w) (messages (snd (enqueue_store message w)))"
    by (rule db_call_cases [of w])
       (use assms p in \<open>simp_all add: enqueue_store_def hasMessage_def table_get_def\<close>)
  show "fst (enqueue_store message w) = Inr () \<longrightarrow>
         queue (snd (enqueue_store message w)) = queue_with message (queue w)"
    by (rule db_call_cases [of w])
       (use assms m in \<open>auto simp: enqueue_store_def hasMessage_def table_get_def
          queue_with_def same_memory_def\<close>)
qed

lemma showNext_row:
  assumes "DAList.lookup (messages w) k = Some r"
  shows "\<exists>s p. DAList.lookup (messages (snd (showNext w))) k =
           Some (r\<lparr>queueStatus := s, queuePosition := p\<rparr>) \<and>
         (s = queueStatus r \<or>
          s = Showing \<and> \<not> isProcessing w \<and> queue w \<noteq> [] \<and> k = msg_id (hd (queue w)))"
proof -
  have id: "r\<lparr>queueStatus := queueStatus r, queuePosition := queuePosition r\<rparr> = r" by simp
  have same: ?thesis if "messages (snd (showNext w)) = messages w"
    using that assms id by (intro exI [of _ "queueStatus r"] exI [of _ "queuePosition r"]) simp
  show ?thesis
  proof (cases "isProcessing w")
    case True
    then show ?thesis by (intro same) (simp add: showNext_busy)
  next
    case False
    show ?thesis
    proof (cases "queue w")
      case Nil
      with False show ?thesis by (intro same) (simp add: showNext_empty)
    next
      case (Cons m rest)
      let ?w1 = "w\<lparr>queue := rest, currentMessage := Some m, isProcessing := True\<rparr>"
      let ?t = "table_update (msg_id m) (\<lambda>r. r\<lparr>queueStatus := Showing\<rparr>) ?w1"
      have eq: "snd (showNext w) = (case fst ?t of Inl e \<Rightarrow> snd ?t | Inr u \<Rightarrow> snd (persistQueue (snd ?t)))"
        using False Cons
        by (simp add: showNext_snd updateQueueStatus_def split: prod.splits sum.splits)
      have t: "messages (snd ?t) = messages w \<or>
          messages (snd ?t) = DAList.map_entry (msg_id m) (\<lambda>r. r\<lparr>queueStatus := Showing\<rparr>) (messages w)"
        by (rule db_call_cases [of ?w1]) (simp_all add: table_update_def)
      then obtain s where s: "DAList.lookup (messages (snd ?t)) k = Some (r\<lparr>queueStatus := s\<rparr>)"
        and s': "s = queueStatus r \<or> s = Showing \<and> k = msg_id m"
      proof
        assume "messages (snd ?t) = messages w"
        then show ?thesis using assms by (intro that [of "queueStatus r"]) simp_all
      next
        assume e: "messages (snd ?t) =
          DAList.map_entry (msg_id m) (\<lambda>r. r\<lparr>queueStatus := Showing\<rparr>) (messages w)"
        show ?thesis
        proof (cases "k = msg_id m")
          case True
          with e assms show ?thesis by (intro that [of Showing]) (simp_all add: lookup_map_entry)
        next
          case False
          with e assms show ?thesis
            by (intro that [of "queueStatus r"]) (simp_all add: lookup_map_entry)
        qed
      qed
      have "\<exists>p. DAList.lookup (messages (snd (showNext w))) k =
          Some (r\<lparr>queueStatus := s, queuePosition := p\<rparr>)"
      proof (cases "fst ?t")
        case (Inl e)
        have "(r\<lparr>queueStatus := s\<rparr>)\<lparr>queuePosition := queuePosition r\<rparr> = r\<lparr>queueStatus := s\<rparr>"
          by simp
        with Inl s show ?thesis
          by (intro exI [of _ "queuePosition r"]) (simp add: eq)
      next
        case (Inr u)
        with persistQueue_position [of "snd ?t"] s show ?thesis
          by (auto simp: eq positions_changed_def split: option.splits dest!: spec [of _ k])
      qed
      with s' False Cons show ?thesis by auto
    qed
  qed
qed




section \<open>Size and position of a notice window\<close>

lemma calculateWindowPosition_explicit:
  "wp_x c = Some x \<Longrightarrow> wp_y c = Some y \<Longrightarrow>
   calculateWindowPosition monitor width height (Some c) = (x, y)"
  by (simp add: calculateWindowPosition_def)

lemma calculateWindowPosition_preset:
  assumes "\<not> (\<exists>x y. Option.bind positionConfig wp_x = Some x \<and>
                    Option.bind positionConfig wp_y = Some y)"
    and "p = (case Option.bind positionConfig wp_padding of None \<Rightarrow> 20 | Some v \<Rightarrow> v)"
    and "(W, H) = (case monitor of Monitor sw sh \<Rightarrow> (sw, sh) | _ \<Rightarrow> (1920, 1080))"
  shows "calculateWindowPosition monitor w h positionConfig =
     (case Option.bind positionConfig wp_position of
        None \<Rightarrow> (W - w - p, H - h - p)
      | Some RightBottom \<Rightarrow> (W - w - p, H - h - p)
      | Some RightTop \<Rightarrow> (W - w - p, p)
      | Some LeftBottom \<Rightarrow> (p, H - h - p)
      | Some LeftTop \<Rightarrow> (p, p)
      | Some Center \<Rightarrow> ((W - w) / 2, (H - h) / 2))"
proof -
  have c: "(case (Option.bind positionConfig wp_x, Option.bind positionConfig wp_y) of
        (Some x, Some y) \<Rightarrow> a x y | _ \<Rightarrow> b) = b" for a :: "real \<Rightarrow> real \<Rightarrow> real \<times> real" and b
    using assms(1) by (auto split: option.splits)
  show ?thesis
    using assms(3) unfolding calculateWindowPosition_def Let_def c assms(2)
    by (cases monitor)
       (auto split: option.splits preset.splits)
qed

text \<open>
  Claim C9, as amended. The size of the window is, in each dimension, the minimum the
  message gives when it gives one that is neither zero nor NaN, and the configured
  default otherwise. \<open>calculateWindowPosition\<close> returns the explicit coordinates whenever both
  are given; otherwise, with \<open>p\<close> the padding (20 when none is given) and \<open>(W, H)\<close> the
  size of the primary monitor (1920 by 1080 when the toolkit gives none or fails), it
  returns the corner or the centre that the preset names, right-bottom when there is
  no preset.
\<close>

theorem window_geometry:
  "window_size config message =
     ((case min_width message of None \<Rightarrow> defaultWidth config
       | Some v \<Rightarrow> if v = Num 0 \<or> v = NaN then defaultWidth config else v),
      (case min_height message of None \<Rightarrow> defaultHeight config
       | Some v \<Rightarrow> if v = Num 0 \<or> v = NaN then defaultHeight config else v)) \<and>
   (wp_x c = Some x \<and> wp_y c = Some y \<longrightarrow>
      calculateWindowPosition monitor w h (Some c) = (x, y)) \<and>
   (\<not> (\<exists>x y. Option.bind positionConfig wp_x = Some x \<and>
              Option.bind positionConfig wp_y = Some y) \<and>
    p = (case Option.bind positionConfig wp_padding of None \<Rightarrow> 20 | Some v \<Rightarrow> v) \<and>
    (W, H) = (case monitor of Monitor sw sh \<Rightarrow> (sw, sh) | _ \<Rightarrow> (1920, 1080)) \<longrightarrow>
      calculateWindowPosition monitor w h positionConfig =
        (case Option.bind positionConfig wp_position of
           None \<Rightarrow> (W - w - p, H - h - p)
         | Some RightBottom \<Rightarrow> (W - w - p, H - h - p)
         | Some RightTop \<Rightarrow> (W - w - p, p)
         | Some LeftBottom \<Rightarrow> (p, H - h - p)
         | Some LeftTop \<Rightarrow> (p, p)
         | Some Center \<Rightarrow> ((W - w) / 2, (H - h) / 2)))"
proof (intro conjI impI)
  show "window_size config message =
     ((case min_width message of None \<Rightarrow> defaultWidth config
       | Some v \<Rightarrow> if v = Num 0 \<or> v = NaN then defaultWidth config else v),
      (case min_height message of None \<Rightarrow> defaultHeight config
       | Some v \<Rightarrow> if v = Num 0 \<or> v = NaN then defaultHeight config else v))"
    by (simp add: window_size_def or_default_def falsy_def split: option.splits)
next
  assume "wp_x c = Some x \<and> wp_y c = Some y"
  then show "calculateWindowPosition monitor w h (Some c) = (x, y)"
    by (simp add: calculateWindowPosition_explicit)
next
  assume "\<not> (\<exists>x y. Option.bind positionConfig wp_x = Some x \<and>
              Option.bind positionConfig wp_y = Some y) \<and>
    p = (case Option.bind positionConfig wp_padding of None \<Rightarrow> 20 | Some v \<Rightarrow> v) \<and>
    (W, H) = (case monitor of Monitor sw sh \<Rightarrow> (sw, sh) | _ \<Rightarrow> (1920, 1080))"
  then show "calculateWindowPosition monitor w h positionConfig =
        (case Option.bind positionConfig wp_position of
           None \<Rightarrow> (W - w - p, H - h - p)
         | Some RightBottom \<Rightarrow> (W - w - p, H - h - p)
         | Some RightTop \<Rightarrow> (W - w - p, p)
         | Some LeftBottom \<Rightarrow> (p, H - h - p)
         | Some LeftTop \<Rightarrow> (p, p)
         | Some Center \<Rightarrow> ((W - w) / 2, (H - h) / 2))"
    using calculateWindowPosition_preset by blast
qed

theorem window_geometry_witness:
  "calculateWindowPosition NoMonitor 400 300
     (Some (left_top_10\<lparr>wp_x := Some 5, wp_y := Some 7\<rparr>)) = (5, 7) \<and>
   calculateWindowPosition NoMonitor 400 300 (Some left_top_10) = (10, 10) \<and>
   calculateWindowPosition (Monitor 1000 800) 400 300 None = (580, 480) \<and>
   calculateWindowPosition MonitorFails 400 300
     (Some (left_top_10\<lparr>wp_position := Some Center\<rparr>)) = (760, 390)"
proof -
  note g = window_geometry [THEN conjunct2]
  have a: "calculateWindowPosition NoMonitor 400 300
     (Some (left_top_10\<lparr>wp_x := Some 5, wp_y := Some 7\<rparr>)) = (5, 7)"
    using g [THEN conjunct1, of "left_top_10\<lparr>wp_x := Some 5, wp_y := Some 7\<rparr>" 5 7 NoMonitor 400 300]
    by simp
  have b: "calculateWindowPosition NoMonitor 400 300 (Some left_top_10) = (10, 10)"
    using g [THEN conjunct2, of "Some left_top_10" 10 1920 1080 NoMonitor 400 300]
    by (simp add: left_top_10_def)
  have c: "calculateWindowPosition (Monitor 1000 800) 400 300 None = (580, 480)"
    using g [THEN conjunct2, of None 20 1000 800 "Monitor 1000 800" 400 300]
    by simp
  have d: "calculateWindowPosition MonitorFails 400 300
     (Some (left_top_10\<lparr>wp_position := Some Center\<rparr>)) = (760, 390)"
    using g [THEN conjunct2, of "Some (left_top_10\<lparr>wp_position := Some Center\<rparr>)" 10 1920 1080
        MonitorFails 400 300]
    by (simp add: left_top_10_def)
  from a b c d show ?thesis by blast
qed

text \<open>
  Claim C9 as stated fails for the size: a minimum width of zero is present, and so is
  one that is NaN, and in both cases the window gets the default width, since \<open>||\<close>
  takes a number that counts as false for absent.
\<close>

theorem window_size_counterexample:
  "min_width zero_width_message = Some (Num 0) \<and>
   fst (window_size defaultConfig zero_width_message) = Num 400 \<and>
   min_width nan_width_message = Some NaN \<and>
   fst (window_size defaultConfig nan_width_message) = Num 400"
  by (simp add: zero_width_message_def nan_width_message_def window_size_def or_default_def
      falsy_def defaultConfig_def example_message_def)

section \<open>Hiding the message that is showing\<close>

lemma showing_a_eq:
  "showing_a =
     \<lparr>queue = [example_message ''b'', example_message ''c''],
      currentMessage = Some (example_message ''a''), isProcessing = True,
      initialized = False, activeWindowIds = [''a''],
      messages =
        DAList.map_entry ''c'' (\<lambda>r. r\<lparr>queuePosition := 1\<rparr>)
          (DAList.map_entry ''b'' (\<lambda>r. r\<lparr>queuePosition := 0\<rparr>)
            (DAList.update ''c'' (storedMessage (example_message ''c'') 2)
              (DAList.map_entry ''b'' (\<lambda>r. r\<lparr>queuePosition := 0\<rparr>)
                (DAList.update ''b'' (storedMessage (example_message ''b'') 1)
                  (DAList.map_entry ''a'' (\<lambda>r. r\<lparr>queueStatus := Showing\<rparr>)
                    (DAList.map_entry ''a'' (\<lambda>r. r\<lparr>queuePosition := 0\<rparr>)
                      (DAList.update ''a'' (storedMessage (example_message ''a'') 0)
                         DAList.empty))))))),
      activeWindows = [''a''], faults = [], rejected = 0, now = 3\<rparr>"
proof -
  have k: "msg_id (example_message k) = k" for k by (simp add: example_message_def)
  have neq: "example_message ''b'' \<noteq> example_message ''c''" 
    by (simp add: example_message_def)
  show ?thesis
    unfolding showing_a_def after_first k
    by (simp add: enqueue_def hasMessage_def table_get_def db_call_def saveMessage_def
      table_put_def persistQueue_def positions_of_def
      table_update_def lookup_map_entry k createNoticeWindow_def isWindowActive_def
      addActiveWindow_def Let_def eval_nat_numeral)
qed

lemma showing_a_row:
  "DAList.lookup (messages showing_a) ''a'' =
     Some ((storedMessage (example_message ''a'') 0)\<lparr>queueStatus := Showing\<rparr>)"
proof -
  have "(storedMessage m 0)\<lparr>queuePosition := 0, queueStatus := Showing\<rparr> =
      (storedMessage m 0)\<lparr>queueStatus := Showing\<rparr>" for m
    by (simp add: storedMessage_def MessageType.defs StoredMessage.defs)
  then show ?thesis
    by (simp add: showing_a_eq lookup_map_entry)
qed

lemmas hide_defs =
  hideNotice_def markAsHidden_def markAsShown_def table_update_def db_call_def
  closeNoticeWindow_def destroyed_begin_def destroyed_end_def removeActiveWindow_def
  clearCurrent_def showNext_def dequeue_def updateQueueStatus_def persistQueue_def
  positions_of_def lookup_map_entry

text \<open>
  Claim C6 does not hold on the code. With message a showing in its open window and b
  and c waiting, \<open>hideNotice\<close> first writes status hidden, then closes the window; the
  destroyed handler of the window then writes status shown over it. Both the handler
  and \<open>hideNotice\<close> call \<open>clearCurrent\<close>, so the queue advances twice. Under each of
  the three schedules of the handler, when everything has run: the row of a has status
  shown (with \<open>isShown\<close> set), not hidden; the window of a is closed and its id is in
  neither list of active windows; and the current message is c, not the next pending
  message b.
\<close>

theorem hide_showing_message:
  "DAList.lookup (messages (snd (hideNotice True sched ''a'' showing_a))) ''a'' =
     Some ((storedMessage (example_message ''a'') 0)\<lparr>queueStatus := Shown, isShown := True\<rparr>) \<and>
   currentMessage (snd (hideNotice True sched ''a'' showing_a)) = Some (example_message ''c'') \<and>
   queue (snd (hideNotice True sched ''a'' showing_a)) = [] \<and>
   ''a'' \<notin> set (activeWindows (snd (hideNotice True sched ''a'' showing_a))) \<and>
   ''a'' \<notin> set (activeWindowIds (snd (hideNotice True sched ''a'' showing_a)))"
proof -
  have k: "msg_id (example_message k) = k" for k by (simp add: example_message_def)
  have r: "(storedMessage m 0)\<lparr>queuePosition := 0, queueStatus := Shown, isShown := True\<rparr> =
      (storedMessage m 0)\<lparr>queueStatus := Shown, isShown := True\<rparr>" for m
    by (simp add: storedMessage_def MessageType.defs StoredMessage.defs)
  show ?thesis
    unfolding showing_a_eq
    by (cases sched) (simp_all add: hide_defs k r)
qed

text \<open>With a single message waiting the second \<open>clearCurrent\<close> finds the queue empty:
  nothing is current in the end, and b, popped by the first, is shown to nobody.\<close>

lemma hide_one_waiting:
  "currentMessage (snd (hideNotice True sched ''a'' showing_a_one_waiting)) = None \<and>
   queue (snd (hideNotice True sched ''a'' showing_a_one_waiting)) = [] \<and>
   \<not> isProcessing (snd (hideNotice True sched ''a'' showing_a_one_waiting))"
proof -
  have k: "msg_id (example_message k) = k" for k by (simp add: example_message_def)
  have e: "showing_a_one_waiting =
     \<lparr>queue = [example_message ''b''],
      currentMessage = Some (example_message ''a''), isProcessing = True,
      initialized = False, activeWindowIds = [''a''],
      messages =
        DAList.map_entry ''b'' (\<lambda>r. r\<lparr>queuePosition := 0\<rparr>)
          (DAList.update ''b'' (storedMessage (example_message ''b'') 1)
            (DAList.map_entry ''a'' (\<lambda>r. r\<lparr>queueStatus := Showing\<rparr>)
              (DAList.map_entry ''a'' (\<lambda>r. r\<lparr>queuePosition := 0\<rparr>)
                (DAList.update ''a'' (storedMessage (example_message ''a'') 0)
                   DAList.empty)))),
      activeWindows = [''a''], faults = [], rejected = 0, now = 2\<rparr>"
    unfolding showing_a_one_waiting_def after_first k
    by (simp add: enqueue_def hasMessage_def table_get_def db_call_def saveMessage_def
      table_put_def persistQueue_def positions_of_def
      table_update_def lookup_map_entry k createNoticeWindow_def isWindowActive_def
      addActiveWindow_def Let_def eval_nat_numeral)
  show ?thesis
    unfolding e
    by (cases sched) (simp_all add: hide_defs k)
qed

end
